theory Spec2Isabelle
  imports Complex_Main "HOL-Library.List_Lexorder" "HOL-Library.Char_ord"
begin

section \<open>JavaScript strings\<close>

text \<open>
  A JavaScript string is modelled as a \<^typ>\<open>string\<close>, one character per code unit.
  The model covers ASCII text, which is what a UK postcode, a date and the marker
  prefixes of this program are made of: the blank characters are the ASCII members of the
  regular-expression class \<^verbatim>\<open>\s\<close> (tab, line feed, vertical tab, form feed, carriage
  return, space), and case conversion acts on the letters a-z and A-Z only.
\<close>

definition is_space :: "char \<Rightarrow> bool" where
  "is_space c = (let n = (of_char c :: nat) in (9 \<le> n \<and> n \<le> 13) \<or> n = 32)"

definition upper_char :: "char \<Rightarrow> char" where
  "upper_char c = (let n = (of_char c :: nat) in if 97 \<le> n \<and> n \<le> 122 then char_of (n - 32) else c)"

definition lower_char :: "char \<Rightarrow> char" where
  "lower_char c = (let n = (of_char c :: nat) in if 65 \<le> n \<and> n \<le> 90 then char_of (n + 32) else c)"

definition toUpperCase :: "string \<Rightarrow> string" where
  "toUpperCase s = map upper_char s"

definition toLowerCase :: "string \<Rightarrow> string" where
  "toLowerCase s = map lower_char s"

text \<open>\<^verbatim>\<open>s.replace(/\s+/g, "")\<close>: every run of blanks is deleted.\<close>

definition strip_spaces :: "string \<Rightarrow> string" where
  "strip_spaces s = filter (\<lambda>c. \<not> is_space c) s"

text \<open>\<^verbatim>\<open>s.trim()\<close>: blanks are removed from both ends.\<close>

definition trim :: "string \<Rightarrow> string" where
  "trim s = rev (dropWhile is_space (rev (dropWhile is_space s)))"

text \<open>\<^verbatim>\<open>s.startsWith(p)\<close>.\<close>

definition startsWith :: "string \<Rightarrow> string \<Rightarrow> bool" where
  "startsWith s p = (take (length p) s = p)"

text \<open>
  \<^verbatim>\<open>s.slice(b, e)\<close> and \<^verbatim>\<open>s.slice(b)\<close>: a negative index counts from the end, and
  both indices are clamped to the string.
\<close>

definition slice_index :: "nat \<Rightarrow> int \<Rightarrow> nat" where
  "slice_index len i = (if i < 0 then nat (max (int len + i) 0) else min (nat i) len)"

definition slice :: "string \<Rightarrow> int \<Rightarrow> int option \<Rightarrow> string" where
  "slice s b e =
     (let len = length s;
          from = slice_index len b;
          to = (case e of None \<Rightarrow> len | Some i \<Rightarrow> slice_index len i)
      in take (to - from) (drop from s))"

text \<open>\<^verbatim>\<open>xs.join(sep)\<close> on an array of strings.\<close>

fun join :: "string \<Rightarrow> string list \<Rightarrow> string" where
  "join sep [] = []"
| "join sep [x] = x"
| "join sep (x # y # ys) = x @ sep @ join sep (y # ys)"

section \<open>Postcode normalizer (RouteModal.tsx)\<close>

text \<open>\<^verbatim>\<open>const normKey = (pc) => pc.replace(/\s+/g, "").toUpperCase()\<close>\<close>

definition normKey :: "string \<Rightarrow> string" where
  "normKey pc = toUpperCase (strip_spaces pc)"

text \<open>
  \<^verbatim>\<open>
  const formatUKPostcode = (pc) => {
    const key = normKey(pc);
    if (!key) return "";
    if (key.length <= 3) return key;
    return `${key.slice(0, -3)} ${key.slice(-3)}`;
  };
  \<close>
\<close>

definition formatUKPostcode :: "string \<Rightarrow> string" where
  "formatUKPostcode pc =
     (let key = normKey pc
      in if key = [] then []
         else if length key \<le> 3 then key
         else slice key 0 (Some (- 3)) @ '' '' @ slice key (- 3) None)"


section \<open>JavaScript numbers\<close>

text \<open>
  A JavaScript number is an IEEE 754 binary64 value: a finite value, which the model
  holds as the rational it denotes, or \<^verbatim>\<open>NaN\<close>, \<^verbatim>\<open>Infinity\<close> or
  \<^verbatim>\<open>-Infinity\<close>. The sign of a zero is not modelled: the program writes every number
  it computes into JSON or into a URL, where \<^verbatim>\<open>-0\<close> is written \<^verbatim>\<open>0\<close>.
\<close>

datatype number = Finite rat | NaN | PosInfinity | NegInfinity

text \<open>\<^verbatim>\<open>Number.isFinite(x)\<close>\<close>

fun isFinite :: "number \<Rightarrow> bool" where
  "isFinite (Finite r) = True"
| "isFinite _ = False"

text \<open>The power of two with an integer exponent.\<close>

definition pow2 :: "int \<Rightarrow> rat" where
  "pow2 e = (if 0 \<le> e then 2 ^ nat e else 1 / 2 ^ nat (- e))"

text \<open>The number of binary digits of a positive integer.\<close>

function bit_length :: "int \<Rightarrow> nat" where
  "bit_length n = (if n \<le> 0 then 0 else Suc (bit_length (n div 2)))"
  by pat_completeness auto

termination
  by (relation "measure nat") auto

declare bit_length.simps [simp del]

text \<open>
  The binary exponent of a positive rational \<open>x\<close>: the \<open>e\<close> with
  \<open>2 ^ e \<le> x < 2 ^ (e + 1)\<close>. The digit counts of numerator and denominator give it
  up to one.
\<close>

definition exponent :: "rat \<Rightarrow> int" where
  "exponent x =
     (let (p, q) = quotient_of x;
          e = int (bit_length p) - int (bit_length q)
      in if pow2 e \<le> x then e else e - 1)"

text \<open>The nearest integer, a tie going to the even one.\<close>

definition round_even :: "rat \<Rightarrow> int" where
  "round_even x =
     (let f = \<lfloor>x\<rfloor>; d = x - of_int f
      in if d < 1 / 2 then f else if 1 / 2 < d then f + 1 else if even f then f else f + 1)"

text \<open>
  The binary64 value of a real number, by the rounding of IEEE 754 (to nearest, a tie
  going to the even significand): the value of a numeric literal and of the exact result
  of an arithmetic operation. A value has a significand of 53 binary digits; below
  \<open>2 ^ - 1022\<close> the values are the multiples of \<open>2 ^ - 1074\<close>; a rounded significand
  of \<open>2 ^ 53\<close> at exponent 1023, which would denote \<open>2 ^ 1024\<close>, and every larger
  magnitude give an infinity.
\<close>

definition binary64 :: "rat \<Rightarrow> number" where
  "binary64 x =
     (if x = 0 then Finite 0
      else
        let e = max (exponent \<bar>x\<bar>) (- 1022);
            m = round_even (\<bar>x\<bar> / pow2 (e - 52))
        in if 1023 < e \<or> (e = 1023 \<and> 2 ^ 53 \<le> m)
           then (if x < 0 then NegInfinity else PosInfinity)
           else Finite (sgn x * of_int m * pow2 (e - 52)))"

text \<open>\<^verbatim>\<open>x / y\<close> on numbers; a zero divisor is \<^verbatim>\<open>+0\<close>.\<close>

fun divide_number :: "number \<Rightarrow> number \<Rightarrow> number" where
  "divide_number (Finite x) (Finite y) =
     (if y \<noteq> 0 then binary64 (x / y)
      else if x = 0 then NaN else if 0 < x then PosInfinity else NegInfinity)"
| "divide_number NaN y = NaN"
| "divide_number x NaN = NaN"
| "divide_number (Finite x) y = Finite 0"
| "divide_number PosInfinity (Finite y) = (if 0 \<le> y then PosInfinity else NegInfinity)"
| "divide_number NegInfinity (Finite y) = (if 0 \<le> y then NegInfinity else PosInfinity)"
| "divide_number x y = NaN"

text \<open>\<^verbatim>\<open>x * y\<close> on numbers.\<close>

fun times_number :: "number \<Rightarrow> number \<Rightarrow> number" where
  "times_number (Finite x) (Finite y) = binary64 (x * y)"
| "times_number NaN y = NaN"
| "times_number x NaN = NaN"
| "times_number (Finite x) PosInfinity =
     (if x = 0 then NaN else if 0 < x then PosInfinity else NegInfinity)"
| "times_number (Finite x) NegInfinity =
     (if x = 0 then NaN else if 0 < x then NegInfinity else PosInfinity)"
| "times_number PosInfinity (Finite y) =
     (if y = 0 then NaN else if 0 < y then PosInfinity else NegInfinity)"
| "times_number NegInfinity (Finite y) =
     (if y = 0 then NaN else if 0 < y then NegInfinity else PosInfinity)"
| "times_number PosInfinity PosInfinity = PosInfinity"
| "times_number NegInfinity NegInfinity = PosInfinity"
| "times_number x y = NegInfinity"

text \<open>
  \<^verbatim>\<open>Math.round(x)\<close>: the integer nearest to \<open>x\<close>, a tie going up. The integer is
  computed exactly; it is a binary64 value whenever \<open>x\<close> is one.
\<close>

fun Math_round :: "number \<Rightarrow> number" where
  "Math_round (Finite x) = binary64 (of_int \<lfloor>x + 1 / 2\<rfloor>)"
| "Math_round x = x"

section \<open>JSON values and JavaScript property access\<close>

text \<open>
  A value parsed from JSON, or built for writing as JSON. \<open>JObj\<close> lists the own
  properties of the object. A JavaScript value that may be \<^verbatim>\<open>undefined\<close> is a
  \<^typ>\<open>'a option\<close>, with \<open>None\<close> for \<^verbatim>\<open>undefined\<close>.
\<close>

datatype json =
    JNull
  | JBool bool
  | JNum number
  | JStr string
  | JArr "json list"
  | JObj "(string \<times> json) list"

definition is_digit :: "char \<Rightarrow> bool" where
  "is_digit c = (let n = (of_char c :: nat) in 48 \<le> n \<and> n \<le> 57)"

definition digit_value :: "char \<Rightarrow> nat" where
  "digit_value c = of_char c - 48"

text \<open>A property name that is an array index: a decimal numeral without leading zero.\<close>

definition array_index :: "string \<Rightarrow> nat option" where
  "array_index k =
     (if k \<noteq> [] \<and> list_all is_digit k \<and> (hd k \<noteq> CHR ''0'' \<or> length k = 1)
      then Some (foldl (\<lambda>a c. 10 * a + digit_value c) 0 k) else None)"

text \<open>
  \<^verbatim>\<open>v[k]\<close> on a value that is neither \<^verbatim>\<open>null\<close> nor \<^verbatim>\<open>undefined\<close>. The names
  this program looks up are upper-cased postcode keys and the fixed names
  \<^verbatim>\<open>results\<close>, \<^verbatim>\<open>error\<close>, \<^verbatim>\<open>lat\<close>, \<^verbatim>\<open>lng\<close>, \<^verbatim>\<open>miles\<close>, \<^verbatim>\<open>coords\<close>,
  \<^verbatim>\<open>routes\<close>, \<^verbatim>\<open>distance\<close> and the index \<^verbatim>\<open>0\<close>; none of them names a property
  that a prototype supplies, so only own properties, array elements and string
  characters are found.
\<close>

fun get_prop :: "json \<Rightarrow> string \<Rightarrow> json option" where
  "get_prop (JObj kvs) k = map_of kvs k"
| "get_prop (JArr xs) k =
     (case array_index k of
        Some i \<Rightarrow> if i < length xs then Some (xs ! i) else None
      | None \<Rightarrow> None)"
| "get_prop (JStr s) k =
     (case array_index k of
        Some i \<Rightarrow> if i < length s then Some (JStr [s ! i]) else None
      | None \<Rightarrow> None)"
| "get_prop _ k = None"

text \<open>\<^verbatim>\<open>v?.k\<close>: \<^verbatim>\<open>undefined\<close> when \<open>v\<close> is \<^verbatim>\<open>null\<close> or \<^verbatim>\<open>undefined\<close>.\<close>

definition opt_chain :: "json option \<Rightarrow> string \<Rightarrow> json option" where
  "opt_chain v k = (case v of None \<Rightarrow> None | Some JNull \<Rightarrow> None | Some j \<Rightarrow> get_prop j k)"

text \<open>\<^verbatim>\<open>v == null\<close>: true of \<^verbatim>\<open>null\<close> and \<^verbatim>\<open>undefined\<close>.\<close>

definition nullish :: "json option \<Rightarrow> bool" where
  "nullish v = (v = None \<or> v = Some JNull)"

text \<open>\<^verbatim>\<open>v ?? null\<close>\<close>

definition or_null :: "json option \<Rightarrow> json" where
  "or_null v = (case v of None \<Rightarrow> JNull | Some j \<Rightarrow> j)"

text \<open>The truth value of a value in a condition.\<close>

fun truthy :: "json option \<Rightarrow> bool" where
  "truthy None = False"
| "truthy (Some JNull) = False"
| "truthy (Some (JBool b)) = b"
| "truthy (Some (JNum n)) = (n \<noteq> Finite 0 \<and> n \<noteq> NaN)"
| "truthy (Some (JStr s)) = (s \<noteq> [])"
| "truthy (Some (JArr xs)) = True"
| "truthy (Some (JObj kvs)) = True"

text \<open>\<^verbatim>\<open>typeof v === "number" ? v : null\<close>\<close>

fun number_or_null :: "json option \<Rightarrow> number option" where
  "number_or_null (Some (JNum n)) = Some n"
| "number_or_null _ = None"

text \<open>
  What a value is after \<^verbatim>\<open>JSON.stringify\<close> has written it and the receiver has
  parsed it: a number that is not finite is written \<^verbatim>\<open>null\<close>.
\<close>

primrec wire :: "json \<Rightarrow> json" where
  "wire JNull = JNull"
| "wire (JBool b) = JBool b"
| "wire (JNum n) = (if isFinite n then JNum n else JNull)"
| "wire (JStr s) = JStr s"
| "wire (JArr xs) = JArr (map wire xs)"
| "wire (JObj kvs) = JObj (map (map_prod id wire) kvs)"

text \<open>The number that a JSON text holds where it writes a numeral of value \<open>r\<close>.\<close>

definition json_number :: "rat \<Rightarrow> json" where
  "json_number r = JNum (binary64 r)"

section \<open>HTTP calls\<close>

text \<open>
  The outcome of \<^verbatim>\<open>fetch\<close>: the promise rejects with an error message, or a response
  arrives with its status, its body text, and the body parsed as JSON (or the message of
  the error that parsing raises).
\<close>

datatype fetch_result =
    Rejected string
  | Response nat string "string + json"

text \<open>\<^verbatim>\<open>resp.ok\<close>\<close>

definition ok :: "nat \<Rightarrow> bool" where
  "ok st = (200 \<le> st \<and> st \<le> 299)"

text \<open>\<^verbatim>\<open>await resp.json().catch(() => ({}))\<close>\<close>

definition json_or_empty :: "string + json \<Rightarrow> json" where
  "json_or_empty b = (case b of Inl e \<Rightarrow> JObj [] | Inr j \<Rightarrow> j)"

section \<open>Dates (the JavaScript Date that RouteModal.tsx converts with)\<close>

text \<open>
  A time value is a number of milliseconds since 1970-01-01T00:00Z. The calendar
  functions are those of the ECMAScript specification (DayFromYear, InLeapYear,
  YearFromTime, MonthFromTime, DateFromTime, HourFromTime, MinFromTime, SecFromTime,
  msFromTime, MakeDay, MakeTime, MakeDate).
\<close>

definition msPerDay :: int where "msPerDay = 86400000"
definition msPerHour :: int where "msPerHour = 3600000"
definition msPerMinute :: int where "msPerMinute = 60000"
definition msPerSecond :: int where "msPerSecond = 1000"

definition DayFromYear :: "int \<Rightarrow> int" where
  "DayFromYear y = 365 * (y - 1970) + (y - 1969) div 4 - (y - 1901) div 100 + (y - 1601) div 400"

definition leap_year :: "int \<Rightarrow> bool" where
  "leap_year y = (y mod 4 = 0 \<and> (y mod 100 \<noteq> 0 \<or> y mod 400 = 0))"

text \<open>
  The number of days of the year before month \<open>m\<close> (0 for January to 11 for December;
  12 gives the length of the year).
\<close>

definition month_start :: "bool \<Rightarrow> nat \<Rightarrow> int" where
  "month_start leap m =
     [0, 31, 59, 90, 120, 151, 181, 212, 243, 273, 304, 334, 365] ! m
       + (if leap \<and> 2 \<le> m then 1 else 0)"

definition DaysInMonth :: "int \<Rightarrow> nat \<Rightarrow> int" where
  "DaysInMonth y m = month_start (leap_year y) (Suc m) - month_start (leap_year y) m"

definition Day :: "int \<Rightarrow> int" where
  "Day t = t div msPerDay"

text \<open>
  YearFromTime: the largest year whose first day is not after the day of \<open>t\<close>. It is one
  of the three years around the estimate that the mean length of a year gives.
\<close>

definition year_of_day :: "int \<Rightarrow> int" where
  "year_of_day d =
     (let y = 1970 + (d * 400) div 146097
      in if DayFromYear (y + 1) \<le> d then y + 1
         else if DayFromYear y \<le> d then y
         else y - 1)"

definition YearFromTime :: "int \<Rightarrow> int" where
  "YearFromTime t = year_of_day (Day t)"

definition DayWithinYear :: "int \<Rightarrow> int" where
  "DayWithinYear t = Day t - DayFromYear (YearFromTime t)"

definition MonthFromTime :: "int \<Rightarrow> nat" where
  "MonthFromTime t =
     (let leap = leap_year (YearFromTime t); d = DayWithinYear t
      in if d < month_start leap 1 then 0
         else if d < month_start leap 2 then 1
         else if d < month_start leap 3 then 2
         else if d < month_start leap 4 then 3
         else if d < month_start leap 5 then 4
         else if d < month_start leap 6 then 5
         else if d < month_start leap 7 then 6
         else if d < month_start leap 8 then 7
         else if d < month_start leap 9 then 8
         else if d < month_start leap 10 then 9
         else if d < month_start leap 11 then 10
         else 11)"

definition DateFromTime :: "int \<Rightarrow> int" where
  "DateFromTime t =
     DayWithinYear t - month_start (leap_year (YearFromTime t)) (MonthFromTime t) + 1"

definition HourFromTime :: "int \<Rightarrow> int" where
  "HourFromTime t = (t div msPerHour) mod 24"

definition MinFromTime :: "int \<Rightarrow> int" where
  "MinFromTime t = (t div msPerMinute) mod 60"

definition SecFromTime :: "int \<Rightarrow> int" where
  "SecFromTime t = (t div msPerSecond) mod 60"

definition msFromTime :: "int \<Rightarrow> int" where
  "msFromTime t = t mod msPerSecond"

text \<open>MakeDay for a month from 0 to 11, MakeTime and MakeDate.\<close>

definition MakeDay :: "int \<Rightarrow> nat \<Rightarrow> int \<Rightarrow> int" where
  "MakeDay y m dt = DayFromYear y + month_start (leap_year y) m + dt - 1"

definition MakeTime :: "int \<Rightarrow> int \<Rightarrow> int \<Rightarrow> int \<Rightarrow> int" where
  "MakeTime h mi sec ms = h * msPerHour + mi * msPerMinute + sec * msPerSecond + ms"

definition MakeDate :: "int \<Rightarrow> int \<Rightarrow> int" where
  "MakeDate day time = day * msPerDay + time"

subsection \<open>Numbers in strings\<close>

text \<open>The value of a string of decimal digits; \<open>None\<close> for any other string.\<close>

definition parse_digits :: "string \<Rightarrow> nat option" where
  "parse_digits s =
     (if s \<noteq> [] \<and> list_all is_digit s
      then Some (foldl (\<lambda>a c. 10 * a + digit_value c) 0 s) else None)"

definition digit_char :: "nat \<Rightarrow> char" where
  "digit_char n = char_of (48 + n)"

text \<open>The decimal numeral of a natural number, and of an integer.\<close>

fun decimal :: "nat \<Rightarrow> string" where
  "decimal n = (if n < 10 then [digit_char n] else decimal (n div 10) @ [digit_char (n mod 10)])"

declare decimal.simps [simp del]

definition decimal_int :: "int \<Rightarrow> string" where
  "decimal_int i = (if i < 0 then ''-'' @ decimal (nat (- i)) else decimal (nat i))"

text \<open>\<^verbatim>\<open>String(n).padStart(w, "0")\<close> for a number that is not negative.\<close>

definition pad :: "nat \<Rightarrow> int \<Rightarrow> string" where
  "pad w n = (let s = decimal (nat n) in replicate (w - length s) CHR ''0'' @ s)"

subsection \<open>Reading and writing dates\<close>

text \<open>
  \<^verbatim>\<open>new Date(local)\<close> for a string of the form \<^verbatim>\<open>YYYY-MM-DDTHH:mm\<close>, the value of an
  input of type datetime-local: the fields of a date of the calendar, read as local time.
  \<open>tz\<close> is the offset of local time from UTC in milliseconds that is in effect. Strings
  of any other form are not modelled (\<open>None\<close>).
\<close>

definition parse_local :: "string \<Rightarrow> (int \<times> nat \<times> int \<times> int \<times> int) option" where
  "parse_local s =
     (if length s = 16 \<and> s ! 4 = CHR ''-'' \<and> s ! 7 = CHR ''-'' \<and> s ! 10 = CHR ''T'' \<and> s ! 13 = CHR '':''
      then
        (case (parse_digits (take 4 s), parse_digits (take 2 (drop 5 s)),
               parse_digits (take 2 (drop 8 s)), parse_digits (take 2 (drop 11 s)),
               parse_digits (take 2 (drop 14 s))) of
           (Some y, Some mo, Some d, Some h, Some mi) \<Rightarrow>
             if 1 \<le> mo \<and> mo \<le> 12 \<and> 1 \<le> d \<and> int d \<le> DaysInMonth (int y) (mo - 1) \<and>
                h \<le> 23 \<and> mi \<le> 59
             then Some (int y, mo - 1, int d, int h, int mi)
             else None
         | _ \<Rightarrow> None)
      else None)"

definition local_time_value :: "int \<Rightarrow> string \<Rightarrow> int option" where
  "local_time_value tz s =
     (case parse_local s of
        None \<Rightarrow> None
      | Some (y, m, d, h, mi) \<Rightarrow> Some (MakeDate (MakeDay y m d) (MakeTime h mi 0 0) - tz))"

text \<open>
  \<^verbatim>\<open>d.toISOString()\<close>: \<^verbatim>\<open>YYYY-MM-DDTHH:mm:ss.sssZ\<close> in UTC, the year with a sign
  and six digits when it is not between 0 and 9999.
\<close>

definition iso_year :: "int \<Rightarrow> string" where
  "iso_year y =
     (if 0 \<le> y \<and> y \<le> 9999 then pad 4 y
      else if y < 0 then ''-'' @ pad 6 (- y)
      else ''+'' @ pad 6 y)"

definition toISOString :: "int \<Rightarrow> string" where
  "toISOString t =
     iso_year (YearFromTime t) @ ''-'' @ pad 2 (int (MonthFromTime t) + 1) @ ''-'' @
     pad 2 (DateFromTime t) @ ''T'' @ pad 2 (HourFromTime t) @ '':'' @ pad 2 (MinFromTime t) @
     '':'' @ pad 2 (SecFromTime t) @ ''.'' @ pad 3 (msFromTime t) @ ''Z''"

text \<open>
  \<^verbatim>\<open>new Date(iso)\<close> for a string that \<^verbatim>\<open>toISOString\<close> writes. Strings of any other
  form are not modelled (\<open>None\<close>).
\<close>

definition parse_iso_fields :: "int \<Rightarrow> string \<Rightarrow> int option" where
  "parse_iso_fields y s =
     (if length s = 20 \<and> s ! 0 = CHR ''-'' \<and> s ! 3 = CHR ''-'' \<and> s ! 6 = CHR ''T'' \<and>
         s ! 9 = CHR '':'' \<and> s ! 12 = CHR '':'' \<and> s ! 15 = CHR ''.'' \<and> s ! 19 = CHR ''Z''
      then
        (case (parse_digits (take 2 (drop 1 s)), parse_digits (take 2 (drop 4 s)),
               parse_digits (take 2 (drop 7 s)), parse_digits (take 2 (drop 10 s)),
               parse_digits (take 2 (drop 13 s)), parse_digits (take 3 (drop 16 s))) of
           (Some mo, Some d, Some h, Some mi, Some sec, Some ms) \<Rightarrow>
             if 1 \<le> mo \<and> mo \<le> 12 \<and> 1 \<le> d \<and> int d \<le> DaysInMonth y (mo - 1) \<and>
                h \<le> 23 \<and> mi \<le> 59 \<and> sec \<le> 59
             then Some (MakeDate (MakeDay y (mo - 1) (int d))
                          (MakeTime (int h) (int mi) (int sec) (int ms)))
             else None
         | _ \<Rightarrow> None)
      else None)"

definition iso_time_value :: "string \<Rightarrow> int option" where
  "iso_time_value s =
     (case s of
        [] \<Rightarrow> None
      | c # rest \<Rightarrow>
          if c = CHR ''+'' \<or> c = CHR ''-''
          then (case parse_digits (take 6 rest) of
                  None \<Rightarrow> None
                | Some y \<Rightarrow> parse_iso_fields (if c = CHR ''-'' then - int y else int y) (drop 6 rest))
          else (case parse_digits (take 4 s) of
                  None \<Rightarrow> None
                | Some y \<Rightarrow> parse_iso_fields (int y) (drop 4 s)))"

text \<open>
  \<^verbatim>\<open>
  function localDatetimeToIso(local: string): string {
    return new Date(local).toISOString();
  }
  \<close>
  \<^verbatim>\<open>toISOString\<close> raises a \<^verbatim>\<open>RangeError\<close> on an invalid date.
\<close>

definition localDatetimeToIso :: "int \<Rightarrow> string \<Rightarrow> string + string" where
  "localDatetimeToIso tz local =
     (case local_time_value tz local of
        None \<Rightarrow> Inl ''Invalid time value''
      | Some t \<Rightarrow> Inr (toISOString t))"

text \<open>
  \<^verbatim>\<open>
  function isoToLocalDatetime(iso: string): string {
    const d = new Date(iso);
    const pad = (n: number) => String(n).padStart(2, "0");
    const yyyy = d.getFullYear();
    const mm = pad(d.getMonth() + 1);
    const dd = pad(d.getDate());
    const hh = pad(d.getHours());
    const mi = pad(d.getMinutes());
    return `${yyyy}-${mm}-${dd}T${hh}:${mi}`;
  }
  \<close>
  The getters read the fields of the local time \<open>t + tz\<close>.
\<close>

definition isoToLocalDatetime :: "int \<Rightarrow> string \<Rightarrow> string option" where
  "isoToLocalDatetime tz iso_string =
     (case iso_time_value iso_string of
        None \<Rightarrow> None
      | Some t \<Rightarrow>
          let lt = t + tz;
              yyyy = YearFromTime lt;
              mm = pad 2 (int (MonthFromTime lt) + 1);
              dd = pad 2 (DateFromTime lt);
              hh = pad 2 (HourFromTime lt);
              mi = pad 2 (MinFromTime lt)
          in Some (decimal_int yyyy @ ''-'' @ mm @ ''-'' @ dd @ ''T'' @ hh @ '':'' @ mi))"

section \<open>Route Assembler (RouteModal.tsx, confirm)\<close>

record DraftStop =
  d_postcode :: string
  d_name :: "string option"
  d_planned_time :: "string option"

text \<open>
  \<open>planned_time\<close> is the ISO string or \<^verbatim>\<open>null\<close>; its representation \<open>'iso\<close> is
  that of the date conversion handed to \<open>confirm\<close>. \<open>lat\<close> and \<open>lng\<close> hold what the
  geocoding answer carried, \<open>JNull\<close> for \<^verbatim>\<open>null\<close>.
\<close>

record 'iso RouteStopFinal =
  stop_order :: nat
  postcode :: string
  name :: "string option"
  planned_time :: "'iso option"
  lat :: json
  lng :: json

text \<open>The calls that \<open>confirm\<close> issues, in order, with the request bodies.\<close>

datatype request =
    GeocodeRequest "string list"
  | RouteMilesRequest "(json \<times> json) list"

text \<open>
  What \<open>confirm\<close> reports through \<^verbatim>\<open>setError\<close>. \<open>Message\<close> carries a message that
  the code builds in full; \<open>GeocodingFailed err\<close> stands for
  \<^verbatim>\<open>`Geocoding failed: ${err}`\<close>, \<open>GeocodingFailedHttp st\<close> for
  \<^verbatim>\<open>`Geocoding failed (HTTP ${st})`\<close>, \<open>RoadDistanceFailed err\<close> for
  \<^verbatim>\<open>`Road distance failed: ${err}`\<close>, and \<open>Thrown\<close> carries the message of an
  exception raised by \<^verbatim>\<open>fetch\<close> or by the date conversion.
\<close>

datatype confirm_error =
    Message string
  | GeocodingFailed json
  | GeocodingFailedHttp nat
  | RoadDistanceFailed json
  | Thrown string

text \<open>
  The body of \<^verbatim>\<open>allDraft.map((s, idx) => ...)\<close> for one draft. \<open>toIso\<close> is
  \<open>localDatetimeToIso\<close>, which raises (\<open>Inl\<close>) on a date it cannot read.
\<close>

definition build_stop ::
  "json \<Rightarrow> (string \<Rightarrow> string + 'iso) \<Rightarrow> nat \<Rightarrow> DraftStop \<Rightarrow> string + 'iso RouteStopFinal" where
  "build_stop geo_map toIso idx s =
     (let pcPretty = formatUKPostcode (d_postcode s);
          key = normKey pcPretty;
          hit = get_prop geo_map key;
          localTime = trim (case d_planned_time s of None \<Rightarrow> [] | Some t \<Rightarrow> t)
      in case (if localTime \<noteq> [] then map_sum id Some (toIso localTime) else Inr None) of
           Inl e \<Rightarrow> Inl e
         | Inr isoTime \<Rightarrow>
             Inr \<lparr> stop_order = idx + 1,
                   postcode = pcPretty,
                   name = d_name s,
                   planned_time = isoTime,
                   lat = or_null (opt_chain hit ''lat''),
                   lng = or_null (opt_chain hit ''lng'') \<rparr>)"

fun build_stops ::
  "json \<Rightarrow> (string \<Rightarrow> string + 'iso) \<Rightarrow> nat \<Rightarrow> DraftStop list \<Rightarrow> string + 'iso RouteStopFinal list" where
  "build_stops geo_map toIso idx [] = Inr []"
| "build_stops geo_map toIso idx (s # ss) =
     (case build_stop geo_map toIso idx s of
        Inl e \<Rightarrow> Inl e
      | Inr st \<Rightarrow>
          (case build_stops geo_map toIso (Suc idx) ss of
             Inl e \<Rightarrow> Inl e
           | Inr sts \<Rightarrow> Inr (st # sts)))"

text \<open>
  \<^verbatim>\<open>allDraft.map((x) => normKey(x.postcode)).filter(Boolean)\<close>: the keys of the
  drafts in draft order, the empty ones left out.
\<close>

definition submitted_postcodes :: "DraftStop list \<Rightarrow> string list" where
  "submitted_postcodes allDraft = filter (\<lambda>k. k \<noteq> []) (map (\<lambda>x. normKey (d_postcode x)) allDraft)"

text \<open>\<^verbatim>\<open>geoJson?.results ?? {}\<close>, for the body of the geocoding answer.\<close>

definition geo_results :: "string + json \<Rightarrow> json" where
  "geo_results geo_body =
     (let results = opt_chain (Some (json_or_empty geo_body)) ''results''
      in if nullish results then JObj [] else or_null results)"

text \<open>
  \<open>confirm\<close>, with the two endpoints and the date conversion as parameters. The result is
  what is handed to \<^verbatim>\<open>onConfirm\<close> (\<open>Inr\<close>: the stops and \<open>totalMiles\<close>) or what is
  shown as the error (\<open>Inl\<close>), together with the calls issued.
\<close>

definition confirm ::
  "(string list \<Rightarrow> fetch_result) \<Rightarrow> ((json \<times> json) list \<Rightarrow> fetch_result) \<Rightarrow>
   (string \<Rightarrow> string + 'iso) \<Rightarrow> DraftStop list \<Rightarrow>
   (confirm_error + 'iso RouteStopFinal list \<times> number option) \<times> request list" where
  "confirm geocode route_miles toIso allDraft =
     (let postcodes = submitted_postcodes allDraft
      in if length postcodes < 2
         then (Inl (Message ''Please enter at least collection and delivery postcodes.''), [])
         else
           (case geocode postcodes of
              Rejected e \<Rightarrow> (Inl (Thrown e), [GeocodeRequest postcodes])
            | Response geo_status geo_text geo_body \<Rightarrow>
                let geoJson = json_or_empty geo_body
                in if \<not> ok geo_status
                   then (Inl (if truthy (opt_chain (Some geoJson) ''error'')
                              then GeocodingFailed (or_null (opt_chain (Some geoJson) ''error''))
                              else GeocodingFailedHttp geo_status),
                         [GeocodeRequest postcodes])
                   else
                     let geo_map = geo_results geo_body;
                         missing = filter (\<lambda>pc. nullish (get_prop geo_map pc)) postcodes
                     in if missing \<noteq> []
                        then (Inl (Message (''Postcode(s) not found: '' @
                                     join '', '' (map formatUKPostcode missing))),
                              [GeocodeRequest postcodes])
                        else
                          (case build_stops geo_map toIso 0 allDraft of
                             Inl e \<Rightarrow> (Inl (Thrown e), [GeocodeRequest postcodes])
                           | Inr finalStops \<Rightarrow>
                               (case find (\<lambda>s. lat s = JNull \<or> lng s = JNull) finalStops of
                                  Some bad \<Rightarrow>
                                    (Inl (Message (''Missing coordinates for: '' @ postcode bad)),
                                     [GeocodeRequest postcodes])
                                | None \<Rightarrow>
                                    let coords = map (\<lambda>s. (lat s, lng s)) finalStops;
                                        calls = [GeocodeRequest postcodes, RouteMilesRequest coords]
                                    in (case route_miles coords of
                                          Rejected e \<Rightarrow> (Inl (Thrown e), calls)
                                        | Response miles_status miles_text miles_body \<Rightarrow>
                                            let milesJson = json_or_empty miles_body
                                            in if \<not> ok miles_status
                                               then (Inl (if truthy (opt_chain (Some milesJson) ''error'')
                                                          then RoadDistanceFailed
                                                                 (or_null (opt_chain (Some milesJson) ''error''))
                                                          else Message ''Road distance failed''),
                                                     calls)
                                               else
                                                 (Inr (finalStops,
                                                       number_or_null (opt_chain (Some milesJson) ''miles'')),
                                                  calls))))))"

text \<open>The batches of the geocoding calls among the calls issued.\<close>

fun geocode_batches :: "request list \<Rightarrow> string list list" where
  "geocode_batches [] = []"
| "geocode_batches (GeocodeRequest batch # calls) = batch # geocode_batches calls"
| "geocode_batches (RouteMilesRequest coords # calls) = geocode_batches calls"

text \<open>The route-miles calls among the calls issued.\<close>

fun route_miles_calls :: "request list \<Rightarrow> (json \<times> json) list list" where
  "route_miles_calls [] = []"
| "route_miles_calls (GeocodeRequest batch # calls) = route_miles_calls calls"
| "route_miles_calls (RouteMilesRequest coords # calls) = coords # route_miles_calls calls"

text \<open>\<^verbatim>\<open>typeof v === "number"\<close>, and a number that is finite.\<close>

fun is_number :: "json option \<Rightarrow> bool" where
  "is_number (Some (JNum n)) = True"
| "is_number _ = False"

fun finite_number :: "json option \<Rightarrow> bool" where
  "finite_number (Some (JNum n)) = isFinite n"
| "finite_number _ = False"

text \<open>
  A key resolves to a coordinate in the geocoding answer when it is not empty and the
  answer holds, under the key, a value with a finite number as \<^verbatim>\<open>lat\<close> and a
  finite number as \<^verbatim>\<open>lng\<close>. The geocoding endpoint writes no entry under the empty
  key.
\<close>

definition resolves :: "json \<Rightarrow> string \<Rightarrow> bool" where
  "resolves geo_map key =
     (key \<noteq> [] \<and>
      finite_number (opt_chain (get_prop geo_map key) ''lat'') \<and>
      finite_number (opt_chain (get_prop geo_map key) ''lng''))"

text \<open>The planned time of a draft is blank or a local time that the date conversion reads.\<close>

definition planned_time_converts :: "(string \<Rightarrow> string + 'iso) \<Rightarrow> DraftStop \<Rightarrow> bool" where
  "planned_time_converts toIso s =
     (let localTime = trim (case d_planned_time s of None \<Rightarrow> [] | Some t \<Rightarrow> t)
      in localTime = [] \<or> \<not> isl (toIso localTime))"

section \<open>Route-miles endpoint (app/api/route-miles/route.ts, POST)\<close>

text \<open>
  \<^verbatim>\<open>Number(v)\<close>. \<^verbatim>\<open>undefined\<close> gives \<^verbatim>\<open>NaN\<close>, \<^verbatim>\<open>null\<close> gives 0, a boolean
  gives 0 or 1, a number is itself. A string, an array or an object is converted by the
  language's rules for numeric strings and for objects, which the parameter \<open>coerce\<close>
  stands for; converting an object can raise a \<^verbatim>\<open>TypeError\<close> (\<open>Inl\<close>).
\<close>

fun to_number :: "(json \<Rightarrow> string + number) \<Rightarrow> json option \<Rightarrow> string + number" where
  "to_number coerce None = Inr NaN"
| "to_number coerce (Some JNull) = Inr (Finite 0)"
| "to_number coerce (Some (JBool b)) = Inr (Finite (if b then 1 else 0))"
| "to_number coerce (Some (JNum n)) = Inr n"
| "to_number coerce (Some j) = coerce j"

text \<open>\<^verbatim>\<open>(c) => ({ lat: Number(c?.lat), lng: Number(c?.lng) })\<close>\<close>

definition to_coord :: "(json \<Rightarrow> string + number) \<Rightarrow> json \<Rightarrow> string + number \<times> number" where
  "to_coord coerce c =
     (case to_number coerce (opt_chain (Some c) ''lat'') of
        Inl e \<Rightarrow> Inl e
      | Inr lat_n \<Rightarrow>
          (case to_number coerce (opt_chain (Some c) ''lng'') of
             Inl e \<Rightarrow> Inl e
           | Inr lng_n \<Rightarrow> Inr (lat_n, lng_n)))"

fun to_coords :: "(json \<Rightarrow> string + number) \<Rightarrow> json list \<Rightarrow> string + (number \<times> number) list" where
  "to_coords coerce [] = Inr []"
| "to_coords coerce (c # cs) =
     (case to_coord coerce c of
        Inl e \<Rightarrow> Inl e
      | Inr p \<Rightarrow>
          (case to_coords coerce cs of
             Inl e \<Rightarrow> Inl e
           | Inr ps \<Rightarrow> Inr (p # ps)))"

text \<open>\<^verbatim>\<open>.filter((c) => Number.isFinite(c.lat) && Number.isFinite(c.lng))\<close>\<close>

definition finite_coords :: "(number \<times> number) list \<Rightarrow> (number \<times> number) list" where
  "finite_coords ps = filter (\<lambda>c. isFinite (fst c) \<and> isFinite (snd c)) ps"

text \<open>\<^verbatim>\<open>NextResponse.json(body, { status })\<close>\<close>

record api_response =
  http_status :: nat
  http_body :: json

definition error_response :: "string \<Rightarrow> nat \<Rightarrow> api_response" where
  "error_response msg st = \<lparr> http_status = st, http_body = JObj [(''error'', JStr msg)] \<rparr>"

text \<open>
  Rounding to one decimal place, \<^verbatim>\<open>Math.round(x * 10) / 10\<close>.
\<close>

definition one_decimal :: "number \<Rightarrow> number" where
  "one_decimal x = divide_number (Math_round (times_number x (Finite 10))) (Finite 10)"

text \<open>\<^verbatim>\<open>json?.routes?.[0]?.distance\<close>\<close>

definition route_distance :: "json \<Rightarrow> json option" where
  "route_distance js = opt_chain (opt_chain (opt_chain (Some js) ''routes'') ''0'') ''distance''"

text \<open>
  The part of \<open>POST\<close> that follows \<^verbatim>\<open>await resp.json()\<close>:
  \<^verbatim>\<open>
  const meters = json?.routes?.[0]?.distance;
  if (typeof meters !== "number")
    return NextResponse.json({ error: "OSRM did not return a distance" }, { status: 502 });
  const miles = meters / 1609.344;
  const rounded = Math.round(miles * 10) / 10; // 1 decimal
  return NextResponse.json({ miles: rounded }, { status: 200 });
  \<close>
  The body of the answer is what the receiver reads from it.
\<close>

definition distance_response :: "json \<Rightarrow> api_response" where
  "distance_response js =
     (case route_distance js of
        Some (JNum meters) \<Rightarrow>
          (let miles = divide_number meters (binary64 (1609344 / 1000));
               rounded = divide_number (Math_round (times_number miles (Finite 10))) (Finite 10)
           in \<lparr> http_status = 200, http_body = wire (JObj [(''miles'', JNum rounded)]) \<rparr>)
      | _ \<Rightarrow> error_response ''OSRM did not return a distance'' 502)"

text \<open>
  The part of \<open>POST\<close> that handles the answer of the routing service. An exception
  (\<^verbatim>\<open>fetch\<close> rejecting, the body not being JSON) is caught by the handler's
  \<^verbatim>\<open>catch\<close>, which answers 500 with the exception's message.
\<close>

definition osrm_response :: "fetch_result \<Rightarrow> api_response" where
  "osrm_response r =
     (case r of
        Rejected e \<Rightarrow> error_response e 500
      | Response st text body \<Rightarrow>
          if \<not> ok st
          then error_response (''OSRM failed ('' @ decimal st @ ''): '' @ slice text 0 (Some 200)) 502
          else (case body of
                  Inl e \<Rightarrow> error_response e 500
                | Inr js \<Rightarrow> distance_response js))"

text \<open>
  \<open>POST\<close> of the route-miles endpoint. \<open>req\<close> is the request body as \<^verbatim>\<open>req.json()\<close>
  reads it. The routing service \<open>osrm\<close> is given the coordinates the URL is built from,
  in order, each as the pair (lng, lat) that the URL writes.
\<close>

definition route_miles_POST ::
  "(json \<Rightarrow> string + number) \<Rightarrow> ((number \<times> number) list \<Rightarrow> fetch_result) \<Rightarrow>
   string + json \<Rightarrow> api_response" where
  "route_miles_POST coerce osrm req =
     (let body = json_or_empty req;
          coordsRaw = opt_chain (Some body) ''coords''
      in case coordsRaw of
           Some (JArr cs) \<Rightarrow>
             if length cs < 2
             then error_response ''coords[] (length >= 2) is required'' 400
             else
               (case to_coords coerce cs of
                  Inl e \<Rightarrow> error_response e 500
                | Inr ps \<Rightarrow>
                    let coords = finite_coords ps
                    in if length coords < 2
                       then error_response ''coords[] must contain valid lat/lng values'' 400
                       else osrm_response (osrm (map (\<lambda>c. (snd c, fst c)) coords)))
         | _ \<Rightarrow> error_response ''coords[] (length >= 2) is required'' 400)"

text \<open>
  The call \<^verbatim>\<open>fetch("/api/route-miles", { body: JSON.stringify({ coords }) })\<close> of
  \<open>confirm\<close>, answered by \<open>POST\<close>, which reads the body as it was written. The
  body text of the answer, which \<open>confirm\<close> never reads, is left empty.
\<close>

definition route_miles_fetch ::
  "(json \<Rightarrow> string + number) \<Rightarrow> ((number \<times> number) list \<Rightarrow> fetch_result) \<Rightarrow>
   (json \<times> json) list \<Rightarrow> fetch_result" where
  "route_miles_fetch coerce osrm coords =
     (let req = wire (JObj [(''coords'', JArr (map (\<lambda>c. JObj [(''lat'', fst c), (''lng'', snd c)]) coords))]);
          resp = route_miles_POST coerce osrm (Inr req)
      in Response (http_status resp) [] (Inr (http_body resp)))"

text \<open>
  The coordinate of a draft in the geocoding answer, as the pair (lng, lat) of numbers
  that the routing request carries for it.
\<close>

fun number_of :: "json option \<Rightarrow> number" where
  "number_of (Some (JNum n)) = n"
| "number_of _ = NaN"

definition draft_lnglat :: "json \<Rightarrow> DraftStop \<Rightarrow> number \<times> number" where
  "draft_lnglat geo_map s =
     (let hit = get_prop geo_map (normKey (d_postcode s))
      in (number_of (opt_chain hit ''lng''), number_of (opt_chain hit ''lat'')))"

text \<open>An entry of \<^verbatim>\<open>coords\<close> whose \<^verbatim>\<open>lat\<close> and \<^verbatim>\<open>lng\<close> are numbers.\<close>

definition numeric_entry :: "json \<Rightarrow> bool" where
  "numeric_entry c = (is_number (opt_chain (Some c) ''lat'') \<and> is_number (opt_chain (Some c) ''lng''))"

section \<open>Driver pay (app/(app)/manage/driver-pay/page.tsx)\<close>

datatype PayType = hourly | shift

datatype DayStatus = work | leave | off | sick

text \<open>\<open>drv_id\<close> is the field \<^verbatim>\<open>id\<close> of the source.\<close>

record DriverRow =
  drv_id :: string
  full_name :: string
  pay_type :: PayType
  pay_rate :: "rat option"

text \<open>
  A row of \<^verbatim>\<open>driver_day_entries\<close> as the page selects it. The row identifier and the
  owner, which the database assigns and the functions below never read, are left out: the
  table is the table of one owner, in which the pair (driver_id, entry_date) is the
  conflict key of an upsert. A number that may be \<^verbatim>\<open>null\<close> is an option.
\<close>

record DayEntry =
  driver_id :: string
  entry_date :: string
  status :: DayStatus
  shifts :: "rat option"
  hours :: "rat option"
  "notes" :: "string option"

text \<open>A row of the view \<^verbatim>\<open>v_driver_completed_job_days\<close>.\<close>

record CompletedJobDay =
  job_driver_id :: "string option"
  job_entry_date :: "string option"
  job_owner_id :: "string option"

text \<open>\<^verbatim>\<open>`${e.driver_id}__${e.entry_date}`\<close>\<close>

definition entry_key :: "string \<Rightarrow> string \<Rightarrow> string" where
  "entry_key driver date = driver @ ''__'' @ date"

text \<open>
  \<^verbatim>\<open>for (const e of entries) map.set(`${e.driver_id}__${e.entry_date}`, e)\<close>: of two
  entries with one key the later one stays, which is the first one of the reversed list.
\<close>

definition entriesByDriverDate :: "DayEntry list \<Rightarrow> string \<Rightarrow> DayEntry option" where
  "entriesByDriverDate entries =
     map_of (rev (map (\<lambda>e. (entry_key (driver_id e) (entry_date e), e)) entries))"

definition getEntry :: "DayEntry list \<Rightarrow> string \<Rightarrow> string \<Rightarrow> DayEntry option" where
  "getEntry entries driver date = entriesByDriverDate entries (entry_key driver date)"

subsection \<open>Pay calculator (computeDriverWeek)\<close>

record WeekTotals =
  workUnits :: rat
  leaveUnits :: rat
  unpaidUnits :: rat
  hoursWork :: rat
  hoursLeave :: rat
  hoursUnpaid :: rat
  amount :: rat

text \<open>\<^verbatim>\<open>x ?? d\<close> on a number.\<close>

definition or_default :: "rat option \<Rightarrow> rat \<Rightarrow> rat" where
  "or_default x d = (case x of None \<Rightarrow> d | Some v \<Rightarrow> v)"

text \<open>The body of \<^verbatim>\<open>for (const day of weekDates)\<close>.\<close>

definition add_day :: "DriverRow \<Rightarrow> DayEntry list \<Rightarrow> WeekTotals \<Rightarrow> string \<Rightarrow> WeekTotals" where
  "add_day d entries t day =
     (case getEntry entries (drv_id d) day of
        None \<Rightarrow> t
      | Some entry \<Rightarrow>
          if status entry = work then
            (if pay_type d = shift
             then t\<lparr> workUnits := workUnits t + or_default (shifts entry) 1 \<rparr>
             else t\<lparr> hoursWork := hoursWork t + or_default (hours entry) 0 \<rparr>)
          else if status entry = leave then
            (if pay_type d = shift
             then t\<lparr> leaveUnits := leaveUnits t + or_default (shifts entry) 1 \<rparr>
             else t\<lparr> hoursLeave := hoursLeave t + or_default (hours entry) 0 \<rparr>)
          else
            (if pay_type d = shift
             then t\<lparr> unpaidUnits := unpaidUnits t + 1 \<rparr>
             else t\<lparr> hoursUnpaid := hoursUnpaid t + or_default (hours entry) 0 \<rparr>))"

text \<open>
  \<open>computeDriverWeek\<close>; \<open>weekDates\<close> and \<open>entries\<close> are the state of the page that the
  function reads.
\<close>

definition computeDriverWeek :: "string list \<Rightarrow> DayEntry list \<Rightarrow> DriverRow \<Rightarrow> WeekTotals" where
  "computeDriverWeek weekDates entries d =
     (let t = foldl (add_day d entries)
                \<lparr> workUnits = 0, leaveUnits = 0, unpaidUnits = 0,
                  hoursWork = 0, hoursLeave = 0, hoursUnpaid = 0, amount = 0 \<rparr>
                weekDates
      in if pay_type d = shift
         then t\<lparr> amount := (workUnits t + leaveUnits t) * or_default (pay_rate d) 0 \<rparr>
         else t\<lparr> amount := (hoursWork t + hoursLeave t) * or_default (pay_rate d) 0 \<rparr>)"

text \<open>
  What one day adds to the units of a shift-type driver: an entry of the given paid
  status adds its recorded shifts, 1 when none is recorded; an off or sick entry adds 1
  unpaid unit; a day without entry adds nothing.
\<close>

definition units_of :: "DayStatus \<Rightarrow> DayEntry option \<Rightarrow> rat" where
  "units_of s entry =
     (case entry of None \<Rightarrow> 0 | Some e \<Rightarrow> if status e = s then or_default (shifts e) 1 else 0)"

definition unpaid_of :: "DayEntry option \<Rightarrow> rat" where
  "unpaid_of entry =
     (case entry of None \<Rightarrow> 0 | Some e \<Rightarrow> if status e = off \<or> status e = sick then 1 else 0)"

subsection \<open>Completed-job sync (syncFromCompletedJobs)\<close>

definition isProtectedStatus :: "DayStatus \<Rightarrow> bool" where
  "isProtectedStatus s = (s = leave \<or> s = off \<or> s = sick)"

text \<open>\<^verbatim>\<open>existing?.notes?.trim().toLowerCase().startsWith("manual:")\<close>\<close>

definition is_manual :: "DayEntry option \<Rightarrow> bool" where
  "is_manual existing =
     (case existing of
        None \<Rightarrow> False
      | Some e \<Rightarrow>
          (case notes e of
             None \<Rightarrow> False
           | Some n \<Rightarrow> startsWith (toLowerCase (trim n)) ''manual:''))"

text \<open>The payload of the upsert.\<close>

definition auto_entry :: "string \<Rightarrow> string \<Rightarrow> DayEntry" where
  "auto_entry driver date =
     \<lparr> driver_id = driver, entry_date = date, status = work, shifts = Some 1,
       hours = None, notes = Some ''Auto: from completed job'' \<rparr>"

text \<open>
  \<^verbatim>\<open>.upsert(payload, { onConflict: "owner_id,driver_id,entry_date" })\<close> on the table:
  the row with the payload's key takes the payload's columns; without such a row the
  payload is inserted.
\<close>

definition same_key :: "DayEntry \<Rightarrow> DayEntry \<Rightarrow> bool" where
  "same_key p e = (driver_id e = driver_id p \<and> entry_date e = entry_date p)"

definition upsert :: "DayEntry \<Rightarrow> DayEntry list \<Rightarrow> DayEntry list" where
  "upsert p tbl =
     (if list_ex (same_key p) tbl
      then map (\<lambda>e. if same_key p e then p else e) tbl
      else tbl @ [p])"

text \<open>\<^verbatim>\<open>!r.driver_id\<close>: true of \<^verbatim>\<open>null\<close> and of the empty string.\<close>

definition blank :: "string option \<Rightarrow> bool" where
  "blank x = (x = None \<or> x = Some [])"

text \<open>
  The loop \<^verbatim>\<open>for (const r of list)\<close>. \<open>byKey\<close> is \<open>entriesByDriverDate\<close>, built from
  the entries the page holds; the upserts change the table and not \<open>byKey\<close>. The
  database is taken to accept every upsert.
\<close>

fun sync_loop ::
  "(string \<Rightarrow> DayEntry option) \<Rightarrow> CompletedJobDay list \<Rightarrow> DayEntry list \<Rightarrow> DayEntry list" where
  "sync_loop byKey [] tbl = tbl"
| "sync_loop byKey (r # rs) tbl =
     (if blank (job_driver_id r) \<or> blank (job_entry_date r) then sync_loop byKey rs tbl
      else
        let driver = the (job_driver_id r);
            date = the (job_entry_date r);
            existing = byKey (entry_key driver date)
        in if (case existing of None \<Rightarrow> False | Some e \<Rightarrow> isProtectedStatus (status e))
           then sync_loop byKey rs tbl
           else if is_manual existing then sync_loop byKey rs tbl
           else if (case existing of None \<Rightarrow> False | Some e \<Rightarrow> status e = work)
           then sync_loop byKey rs tbl
           else sync_loop byKey rs (upsert (auto_entry driver date) tbl))"

text \<open>
  The rows for which the loop body reaches the upsert when no entry is held under the
  row's key, and the payload it then writes.
\<close>

definition reaches_upsert :: "(string \<Rightarrow> DayEntry option) \<Rightarrow> CompletedJobDay \<Rightarrow> bool" where
  "reaches_upsert byKey r =
     (\<not> blank (job_driver_id r) \<and> \<not> blank (job_entry_date r) \<and>
      byKey (entry_key (the (job_driver_id r)) (the (job_entry_date r))) = None)"

definition payload :: "CompletedJobDay \<Rightarrow> DayEntry" where
  "payload r = auto_entry (the (job_driver_id r)) (the (job_entry_date r))"

text \<open>
  The range condition \<^verbatim>\<open>.gte("entry_date", start).lte("entry_date", end)\<close> of the
  queries. Dates are strings of the form YYYY-MM-DD, which the order of strings compares
  as the dates they denote.
\<close>

definition in_range :: "string \<Rightarrow> string \<Rightarrow> string \<Rightarrow> bool" where
  "in_range start end date = (start \<le> date \<and> date \<le> end)"

text \<open>The entries that \<open>load\<close> puts into the state of the page: the rows of the week.\<close>

definition load_entries :: "string \<Rightarrow> string \<Rightarrow> DayEntry list \<Rightarrow> DayEntry list" where
  "load_entries weekStart weekEnd tbl = filter (\<lambda>e. in_range weekStart weekEnd (entry_date e)) tbl"

text \<open>The rows that the query on the view returns for the signed-in user and the week.\<close>

definition completed_rows ::
  "string \<Rightarrow> string \<Rightarrow> string \<Rightarrow> CompletedJobDay list \<Rightarrow> CompletedJobDay list" where
  "completed_rows uid start end view =
     filter (\<lambda>r. job_owner_id r = Some uid \<and>
                 (case job_entry_date r of None \<Rightarrow> False | Some d \<Rightarrow> in_range start end d)) view"

text \<open>
  \<open>syncFromCompletedJobs\<close>. \<open>user\<close> is the signed-in user (\<open>None\<close>: no session),
  \<open>entries\<close> the entries the page holds, \<open>view\<close> the view and \<open>tbl\<close> the table. The
  result is the error shown, if any, and the table after the run.
\<close>

definition syncFromCompletedJobs ::
  "string option \<Rightarrow> string \<Rightarrow> string \<Rightarrow> DayEntry list \<Rightarrow> CompletedJobDay list \<Rightarrow>
   DayEntry list \<Rightarrow> string option \<times> DayEntry list" where
  "syncFromCompletedJobs user weekStart weekEnd entries view tbl =
     (case user of
        None \<Rightarrow> (Some ''Auth session missing. Please log in again.'', tbl)
      | Some uid \<Rightarrow>
          (None, sync_loop (entriesByDriverDate entries)
                   (completed_rows uid weekStart weekEnd view) tbl))"

section \<open>Example data\<close>

text \<open>
  A week, a shift-type driver paid 100 per shift, and the entries of the specification's
  example: work on Monday and Tuesday, leave on Wednesday, off on Thursday, sick on
  Friday.
\<close>

definition example_week :: "string list" where
  "example_week = [''2025-12-01'', ''2025-12-02'', ''2025-12-03'', ''2025-12-04'',
                   ''2025-12-05'', ''2025-12-06'', ''2025-12-07'']"

definition example_driver :: DriverRow where
  "example_driver = \<lparr> drv_id = ''d1'', full_name = ''A Driver'', pay_type = shift, pay_rate = Some 100 \<rparr>"

definition day_entry :: "string \<Rightarrow> DayStatus \<Rightarrow> rat option \<Rightarrow> DayEntry" where
  "day_entry date s n =
     \<lparr> driver_id = ''d1'', entry_date = date, status = s, shifts = n, hours = None, notes = None \<rparr>"

definition example_entries :: "DayEntry list" where
  "example_entries =
     [day_entry ''2025-12-01'' work (Some 1), day_entry ''2025-12-02'' work (Some 1),
      day_entry ''2025-12-03'' leave (Some 1), day_entry ''2025-12-04'' off (Some 0),
      day_entry ''2025-12-05'' sick (Some 0)]"

text \<open>
  A table with a leave day and a manual work day, and a view with completed jobs on both
  days and on a third day.
\<close>

definition example_table :: "DayEntry list" where
  "example_table =
     [\<lparr> driver_id = ''d1'', entry_date = ''2025-12-03'', status = leave, shifts = Some 1,
        hours = None, notes = Some ''Manual: Annual leave'' \<rparr>,
      \<lparr> driver_id = ''d2'', entry_date = ''2025-12-04'', status = work, shifts = Some 1,
        hours = None, notes = Some ''Manual: Work (Standby)'' \<rparr>]"

definition example_view :: "CompletedJobDay list" where
  "example_view =
     [\<lparr> job_driver_id = Some ''d1'', job_entry_date = Some ''2025-12-03'', job_owner_id = Some ''u1'' \<rparr>,
      \<lparr> job_driver_id = Some ''d2'', job_entry_date = Some ''2025-12-04'', job_owner_id = Some ''u1'' \<rparr>,
      \<lparr> job_driver_id = Some ''d1'', job_entry_date = Some ''2025-12-05'', job_owner_id = Some ''u1'' \<rparr>]"

text \<open>
  Drafts, a geocoding answer and a routing answer for the examples. The first drafts are
  those of the specification's scenario: the delivery is the collection point, typed in
  another way.
\<close>

definition draft :: "string \<Rightarrow> string \<Rightarrow> string \<Rightarrow> DraftStop" where
  "draft pc nm time = \<lparr> d_postcode = pc, d_name = Some nm, d_planned_time = Some time \<rparr>"

definition example_drafts :: "DraftStop list" where
  "example_drafts =
     [draft ''wn5 0lr'' ''Collection'' ''2025-12-21T09:30'', draft ''WS138NF'' ''Stop'' '''',
      draft ''wn50lr'' ''Delivery'' '''']"

definition coordinate :: "rat \<Rightarrow> rat \<Rightarrow> json" where
  "coordinate a b = JObj [(''lat'', json_number a), (''lng'', json_number b)]"

definition example_geo_body :: json where
  "example_geo_body =
     JObj [(''results'',
            JObj [(''WN50LR'', coordinate (5353 / 100) (- 268 / 100)),
                  (''WS138NF'', coordinate (5268 / 100) (- 182 / 100)),
                  (''ZZ99ZZ'', JNull)])]"

definition example_geocode :: "string list \<Rightarrow> fetch_result" where
  "example_geocode batch = Response 200 [] (Inr example_geo_body)"

definition routed :: "json \<Rightarrow> json" where
  "routed distance = JObj [(''routes'', JArr [JObj [(''distance'', distance)]])]"

definition example_route :: json where
  "example_route = routed (json_number 263000)"

definition example_osrm :: "(number \<times> number) list \<Rightarrow> fetch_result" where
  "example_osrm coords = Response 200 [] (Inr example_route)"

text \<open>A conversion under which no string and no object is a number.\<close>

definition example_coerce :: "json \<Rightarrow> string + number" where
  "example_coerce j = Inr NaN"

text \<open>Drafts of which two have no result in the geocoding answer above.\<close>

definition unresolved_drafts :: "DraftStop list" where
  "unresolved_drafts =
     [draft ''wn5 0lr'' ''Collection'' '''', draft ''zz99zz'' ''Stop'' '''',
      draft ''qq11qq'' ''Delivery'' '''']"

text \<open>
  Two drafts whose postcodes the geocoding service knows without a position, and the
  answer of the geocoding endpoint for them: an entry whose \<^verbatim>\<open>lat\<close> and
  \<^verbatim>\<open>lng\<close> are \<^verbatim>\<open>null\<close>.
\<close>

definition island_drafts :: "DraftStop list" where
  "island_drafts = [draft ''je2 3xp'' ''Collection'' [], draft ''im1 1aa'' ''Delivery'' []]"

definition island_geo_body :: json where
  "island_geo_body =
     JObj [(''results'',
            JObj [(''JE23XP'', JObj [(''lat'', JNull), (''lng'', JNull)]),
                  (''IM11AA'', JObj [(''lat'', JNull), (''lng'', JNull)])])]"


definition null_coords :: "json list" where
  "null_coords = [JObj [(''lat'', JNull), (''lng'', JNull)], JObj [(''lat'', JNull), (''lng'', JNull)]]"

text \<open>A routing service that answers one request only.\<close>

definition expecting :: "(number \<times> number) list \<Rightarrow> json \<Rightarrow> (number \<times> number) list \<Rightarrow> fetch_result" where
  "expecting request answer coords =
     (if coords = request then Response 200 [] (Inr answer) else Rejected ''another request'')"

section \<open>Properties of the postcode normalizer\<close>

lemma is_space_upper_char: "is_space (upper_char c) = is_space c"
  unfolding is_space_def upper_char_def Let_def by auto

lemma strip_upper_commute:
  "filter (\<lambda>c. \<not> is_space c) (map upper_char s) = map upper_char (filter (\<lambda>c. \<not> is_space c) s)"
  by (induction s) (simp_all add: is_space_upper_char)

lemma nat_minus_three: "nat (int n - 3) = n - 3"
  by arith

lemma slice_front: "3 < length s \<Longrightarrow> slice s 0 (Some (- 3)) = take (length s - 3) s"
  by (simp add: slice_def slice_index_def Let_def max_def nat_minus_three)

lemma slice_back: "3 < length s \<Longrightarrow> slice s (- 3) None = drop (length s - 3) s"
  by (simp add: slice_def slice_index_def Let_def max_def nat_minus_three)

lemma normKey_spec: "normKey pc = filter (\<lambda>c. \<not> is_space c) (map upper_char pc)"
  by (simp add: normKey_def toUpperCase_def strip_spaces_def strip_upper_commute)

lemma formatUKPostcode_normKey:
  "formatUKPostcode pc =
     (if 3 < length (normKey pc)
      then take (length (normKey pc) - 3) (normKey pc) @ '' '' @ drop (length (normKey pc) - 3) (normKey pc)
      else normKey pc)"
proof (cases "3 < length (normKey pc)")
  case True
  then have "normKey pc \<noteq> []" by auto
  with True show ?thesis
    by (simp add: formatUKPostcode_def Let_def slice_front slice_back)
next
  case False
  then show ?thesis
    by (auto simp: formatUKPostcode_def Let_def)
qed


section \<open>Properties of the pay calculator\<close>

lemma shift_week_fold:
  assumes "pay_type d = shift"
  shows "workUnits (foldl (add_day d es) t days) =
           workUnits t + sum_list (map (\<lambda>day. units_of work (getEntry es (drv_id d) day)) days) \<and>
         leaveUnits (foldl (add_day d es) t days) =
           leaveUnits t + sum_list (map (\<lambda>day. units_of leave (getEntry es (drv_id d) day)) days) \<and>
         unpaidUnits (foldl (add_day d es) t days) =
           unpaidUnits t + sum_list (map (\<lambda>day. unpaid_of (getEntry es (drv_id d) day)) days)"
proof (induction days arbitrary: t)
  case Nil
  then show ?case by simp
next
  case (Cons day days)
  have step: "workUnits (add_day d es t day) = workUnits t + units_of work (getEntry es (drv_id d) day)"
    "leaveUnits (add_day d es t day) = leaveUnits t + units_of leave (getEntry es (drv_id d) day)"
    "unpaidUnits (add_day d es t day) = unpaidUnits t + unpaid_of (getEntry es (drv_id d) day)"
    using assms
    by (cases "getEntry es (drv_id d) day"; cases "status (the (getEntry es (drv_id d) day))";
        simp add: add_day_def units_of_def unpaid_of_def)+
  show ?case
    using Cons.IH [of "add_day d es t day"] by (simp add: step add.assoc)
qed

text \<open>
  C4 (amended). For a shift-type driver, each day of the week whose entry has status work
  or leave adds the entry's recorded shifts value, 1 when none is recorded, to workUnits
  or leaveUnits, whatever its hours; each off or sick day adds 1 to unpaidUnits; a day
  without entry adds nothing; and the amount is (workUnits + leaveUnits) * payRate.
\<close>

theorem shift_week_totals:
  assumes "pay_type d = shift"
  shows "workUnits (computeDriverWeek weekDates entries d) =
           sum_list (map (\<lambda>day. units_of work (getEntry entries (drv_id d) day)) weekDates) \<and>
         leaveUnits (computeDriverWeek weekDates entries d) =
           sum_list (map (\<lambda>day. units_of leave (getEntry entries (drv_id d) day)) weekDates) \<and>
         unpaidUnits (computeDriverWeek weekDates entries d) =
           sum_list (map (\<lambda>day. unpaid_of (getEntry entries (drv_id d) day)) weekDates) \<and>
         amount (computeDriverWeek weekDates entries d) =
           (workUnits (computeDriverWeek weekDates entries d) +
            leaveUnits (computeDriverWeek weekDates entries d)) * or_default (pay_rate d) 0"
  using assms shift_week_fold [OF assms, of entries _ weekDates]
  by (simp add: computeDriverWeek_def Let_def)

text \<open>
  The week of the specification's example, with one shift recorded on each paid day:
  Monday and Tuesday work, Wednesday leave, Thursday off, Friday sick, at a rate of 100.
\<close>

theorem shift_week_totals_witness:
  "pay_type example_driver = shift \<and>
   workUnits (computeDriverWeek example_week example_entries example_driver) = 2 \<and>
   leaveUnits (computeDriverWeek example_week example_entries example_driver) = 1 \<and>
   unpaidUnits (computeDriverWeek example_week example_entries example_driver) = 2 \<and>
   amount (computeDriverWeek example_week example_entries example_driver) = 300"
proof -
  have h: "pay_type example_driver = shift" by (simp add: example_driver_def)
  have w: "sum_list (map (\<lambda>day. units_of work (getEntry example_entries (drv_id example_driver) day)) example_week) = 2"
    by code_simp
  have l: "sum_list (map (\<lambda>day. units_of leave (getEntry example_entries (drv_id example_driver) day)) example_week) = 1"
    by code_simp
  have u: "sum_list (map (\<lambda>day. unpaid_of (getEntry example_entries (drv_id example_driver) day)) example_week) = 2"
    by code_simp
  have r: "or_default (pay_rate example_driver) 0 = 100" by code_simp
  from shift_week_totals [OF h, of example_week example_entries] show ?thesis
    by (simp add: h w l u r)
qed

text \<open>
  A work day on which two shifts are recorded adds two units, not one.
\<close>

theorem shift_units_counterexample:
  "pay_type example_driver = shift \<and>
   workUnits (computeDriverWeek example_week [day_entry ''2025-12-01'' work (Some 2)] example_driver) = 2 \<and>
   amount (computeDriverWeek example_week [day_entry ''2025-12-01'' work (Some 2)] example_driver) = 200"
  by code_simp

section \<open>Properties of the completed-job sync\<close>

lemma entriesByDriverDate_None:
  "entriesByDriverDate es k = None \<longleftrightarrow> (\<forall>e \<in> set es. entry_key (driver_id e) (entry_date e) \<noteq> k)"
  by (auto simp: entriesByDriverDate_def map_of_eq_None_iff image_iff)

lemma sync_loop_Cons:
  "sync_loop m (r # rs) tbl =
     (if reaches_upsert m r then sync_loop m rs (upsert (payload r) tbl) else sync_loop m rs tbl)"
proof (cases "m (entry_key (the (job_driver_id r)) (the (job_entry_date r)))")
  case None
  then show ?thesis by (simp add: Let_def is_manual_def reaches_upsert_def payload_def)
next
  case (Some e)
  then show ?thesis
    by (cases "status e") (simp_all add: Let_def isProtectedStatus_def reaches_upsert_def)
qed

lemma payload_key: "driver_id (payload r) = the (job_driver_id r)" "entry_date (payload r) = the (job_entry_date r)"
  by (simp_all add: payload_def auto_entry_def)

lemma payload_auto: "payload r = auto_entry (driver_id (payload r)) (entry_date (payload r))"
  by (simp add: payload_def auto_entry_def)

lemma upsert_extension:
  assumes base: "\<not> list_ex (same_key (payload r)) base"
    and auto: "\<forall>e \<in> set acc. e = auto_entry (driver_id e) (entry_date e)"
  shows "upsert (payload r) (base @ acc) =
           base @ (if payload r \<in> set acc then acc else acc @ [payload r])"
proof -
  let ?p = "payload r"
  have base_keep: "map (\<lambda>e. if same_key ?p e then ?p else e) base = base"
    using base by (induction base) (auto simp: list_ex_iff)
  have same: "e = ?p" if "e \<in> set acc" "same_key ?p e" for e
  proof -
    from that(1) auto have "e = auto_entry (driver_id e) (entry_date e)" by blast
    also have "\<dots> = auto_entry (driver_id ?p) (entry_date ?p)"
      using that(2) by (simp add: same_key_def)
    also have "\<dots> = ?p" by (rule payload_auto [symmetric])
    finally show ?thesis .
  qed
  have acc_keep: "map (\<lambda>e. if same_key ?p e then ?p else e) acc = acc"
    by (rule map_idI) (use same in auto)
  have mem: "list_ex (same_key ?p) acc \<longleftrightarrow> ?p \<in> set acc"
    using same by (auto simp: list_ex_iff same_key_def)
  show ?thesis
    using base by (simp add: upsert_def mem base_keep acc_keep)
qed

lemma sync_loop_extension:
  assumes fresh: "\<And>r. r \<in> set rs \<Longrightarrow> reaches_upsert m r \<Longrightarrow> \<not> list_ex (same_key (payload r)) base"
    and auto: "\<forall>e \<in> set acc. e = auto_entry (driver_id e) (entry_date e)"
  shows "\<exists>ext. sync_loop m rs (base @ acc) = base @ ext \<and>
           (\<forall>e \<in> set ext. e = auto_entry (driver_id e) (entry_date e)) \<and>
           set ext = set acc \<union> payload ` set (filter (reaches_upsert m) rs)"
  using fresh auto
proof (induction rs arbitrary: acc)
  case Nil
  then show ?case by simp
next
  case (Cons r rs)
  have fresh': "\<And>r'. r' \<in> set rs \<Longrightarrow> reaches_upsert m r' \<Longrightarrow> \<not> list_ex (same_key (payload r')) base"
    using Cons.prems(1) by simp
  show ?case
  proof (cases "reaches_upsert m r")
    case False
    from Cons.IH [OF fresh' Cons.prems(2)] obtain ext where
      ext: "sync_loop m rs (base @ acc) = base @ ext"
        "\<forall>e \<in> set ext. e = auto_entry (driver_id e) (entry_date e)"
        "set ext = set acc \<union> payload ` set (filter (reaches_upsert m) rs)"
      by blast
    have "sync_loop m (r # rs) (base @ acc) = base @ ext"
      using False ext(1) by (simp only: sync_loop_Cons if_False)
    moreover have "set ext = set acc \<union> payload ` set (filter (reaches_upsert m) (r # rs))"
      using False ext(3) by simp
    ultimately show ?thesis using ext(2) by blast
  next
    case True
    then have nb: "\<not> list_ex (same_key (payload r)) base"
      using Cons.prems(1) [of r] by simp
    define acc' where "acc' = (if payload r \<in> set acc then acc else acc @ [payload r])"
    have set_acc': "set acc' = insert (payload r) (set acc)"
      by (auto simp: acc'_def)
    have auto': "\<forall>e \<in> set acc'. e = auto_entry (driver_id e) (entry_date e)"
      unfolding set_acc' using Cons.prems(2) payload_auto [of r] by blast
    have step: "upsert (payload r) (base @ acc) = base @ acc'"
      unfolding acc'_def by (rule upsert_extension [OF nb Cons.prems(2)])
    from Cons.IH [OF fresh' auto'] obtain ext where
      ext: "sync_loop m rs (base @ acc') = base @ ext"
        "\<forall>e \<in> set ext. e = auto_entry (driver_id e) (entry_date e)"
        "set ext = set acc' \<union> payload ` set (filter (reaches_upsert m) rs)"
      by blast
    have "sync_loop m (r # rs) (base @ acc) = base @ ext"
      using True ext(1) step by (simp only: sync_loop_Cons if_True)
    moreover have "set ext = set acc \<union> payload ` set (filter (reaches_upsert m) (r # rs))"
      using True ext(3) set_acc' by simp
    ultimately show ?thesis using ext(2) by blast
  qed
qed



lemma completed_rows_in_range:
  assumes "r \<in> set (completed_rows uid ws we view)" and "\<not> blank (job_entry_date r)"
  shows "in_range ws we (the (job_entry_date r))"
  using assms by (auto simp: completed_rows_def split: option.splits)

lemma week_run_extension:
  "\<exists>ext. sync_loop (entriesByDriverDate (load_entries ws we tbl)) (completed_rows uid ws we view) tbl
             = tbl @ ext \<and>
     set ext = payload ` set (filter (reaches_upsert (entriesByDriverDate (load_entries ws we tbl)))
                               (completed_rows uid ws we view))"
proof -
  let ?m = "entriesByDriverDate (load_entries ws we tbl)"
  let ?rs = "completed_rows uid ws we view"
  have fresh: "\<not> list_ex (same_key (payload r)) tbl"
    if r: "r \<in> set ?rs" and w: "reaches_upsert ?m r" for r
  proof
    assume "list_ex (same_key (payload r)) tbl"
    then obtain e where e: "e \<in> set tbl" "driver_id e = the (job_driver_id r)"
        "entry_date e = the (job_entry_date r)"
      by (auto simp: list_ex_iff same_key_def payload_key)
    from w have nb: "\<not> blank (job_entry_date r)"
      and none: "?m (entry_key (the (job_driver_id r)) (the (job_entry_date r))) = None"
      by (simp_all add: reaches_upsert_def)
    have "in_range ws we (entry_date e)"
      using completed_rows_in_range [OF r nb] e(3) by simp
    with e(1) have "e \<in> set (load_entries ws we tbl)" by (simp add: load_entries_def)
    with none e(2,3) show False by (auto simp: entriesByDriverDate_None)
  qed
  have "\<forall>e \<in> set ([]::DayEntry list). e = auto_entry (driver_id e) (entry_date e)" by simp
  from sync_loop_extension [of ?rs ?m tbl "[]", OF fresh this]
  show ?thesis by auto
qed


text \<open>
  A run on freshly loaded entries only appends rows: every row of the table, whatever
  its status and notes, stays in its place and unchanged.
\<close>

lemma sync_keeps_rows_when_loaded:
  assumes "i < length tbl"
  shows "i < length (snd (syncFromCompletedJobs user weekStart weekEnd
                            (load_entries weekStart weekEnd tbl) view tbl)) \<and>
         snd (syncFromCompletedJobs user weekStart weekEnd
                (load_entries weekStart weekEnd tbl) view tbl) ! i = tbl ! i"
proof (cases user)
  case None
  with assms(1) show ?thesis by (simp add: syncFromCompletedJobs_def)
next
  case (Some uid)
  from week_run_extension [of weekStart weekEnd tbl uid view] obtain ext where
    "sync_loop (entriesByDriverDate (load_entries weekStart weekEnd tbl))
       (completed_rows uid weekStart weekEnd view) tbl = tbl @ ext"
    by blast
  with Some assms(1) show ?thesis
    by (simp add: syncFromCompletedJobs_def nth_append)
qed

lemma sync_example:
  "syncFromCompletedJobs (Some ''u1'') ''2025-12-01'' ''2025-12-07''
     (load_entries ''2025-12-01'' ''2025-12-07'' example_table) example_view example_table
   = (None, example_table @ [auto_entry ''d1'' ''2025-12-05''])"
  by code_simp

text \<open>
  C2. The reconciler looks for the existing entry in the entries that the page holds,
  not in the table. The page holds no entries when it is mounted and after a load that
  failed, while the button that starts the run stays enabled. Run then on a table with a
  leave day and a manual work day, with completed jobs on both days, the reconciler
  replaces both rows by automatic work entries: the leave day becomes a work day, and the
  manual entry loses its notes.
\<close>

theorem sync_overwrites_rows_not_held:
  "status (example_table ! 0) = leave \<and>
   notes (example_table ! 1) = Some ''Manual: Work (Standby)'' \<and>
   is_manual (Some (example_table ! 1)) \<and>
   syncFromCompletedJobs (Some ''u1'') ''2025-12-01'' ''2025-12-07'' [] example_view example_table
     = (None, [auto_entry ''d1'' ''2025-12-03'', auto_entry ''d2'' ''2025-12-04'',
               auto_entry ''d1'' ''2025-12-05'']) \<and>
   status (auto_entry ''d1'' ''2025-12-03'') = work \<and>
   notes (auto_entry ''d2'' ''2025-12-04'') = Some ''Auto: from completed job''"
  by code_simp


section \<open>Properties of the numbers\<close>

lemma pow2_powi: "pow2 e = 2 powi e"
  by (simp add: pow2_def power_int_def inverse_eq_divide power_one_over)

lemma pow2_pos: "0 < pow2 e"
  by (simp add: pow2_powi)

lemma pow2_add: "pow2 (a + b) = pow2 a * pow2 b"
  by (simp add: pow2_powi power_int_add)

lemma pow2_mono: "a \<le> b \<Longrightarrow> pow2 a \<le> pow2 b"
  by (simp add: pow2_powi power_int_increasing)

lemma pow2_strict_mono: "a < b \<Longrightarrow> pow2 a < pow2 b"
  by (simp add: pow2_powi power_int_strict_increasing)

lemma pow2_less_imp: "pow2 a < pow2 b \<Longrightarrow> a < b"
  using pow2_mono [of b a] by (cases "a < b") auto

lemma pow2_nat: "pow2 (int n) = 2 ^ n"
  by (simp add: pow2_def)

lemma pow2_Suc: "pow2 (int n + 1) = 2 * 2 ^ n"
  by (simp add: pow2_add pow2_nat) (simp add: pow2_def)

lemma pow2_53: "pow2 (e - 52) * 2 ^ 53 = pow2 (e + 1)"
proof -
  have "e - 52 + int 53 = e + 1" by simp
  then have "pow2 (e - 52) * pow2 (int 53) = pow2 (e + 1)"
    by (simp only: pow2_add [symmetric])
  then show ?thesis by (simp only: pow2_nat)
qed

lemma bit_length_bounds:
  "0 < n \<Longrightarrow> 2 ^ bit_length n \<le> 2 * n \<and> n < 2 ^ bit_length n"
proof (induction n rule: bit_length.induct)
  case (1 n)
  show ?case
  proof (cases "n div 2 = 0")
    case True
    with 1(2) have n: "n = 1" by presburger
    have "bit_length (1 div 2) = 0" by (subst bit_length.simps) simp
    then have "bit_length 1 = 1" by (subst bit_length.simps) simp
    with n show ?thesis by simp
  next
    case False
    with 1(2) have pos: "0 < n div 2" by presburger
    from 1(2) have "\<not> n \<le> 0" by simp
    from 1(1) [OF this pos] have ih: "2 ^ bit_length (n div 2) \<le> 2 * (n div 2)"
        "n div 2 < 2 ^ bit_length (n div 2)"
      by simp_all
    have b: "bit_length n = Suc (bit_length (n div 2))"
      using 1(2) by (subst bit_length.simps) simp
    from ih(1) have "2 * 2 ^ bit_length (n div 2) \<le> 2 * (2 * (n div 2))" by simp
    also have "\<dots> \<le> 2 * n" by presburger
    finally have lo: "2 ^ bit_length n \<le> 2 * n" by (simp add: b)
    from ih(2) have "n div 2 + 1 \<le> 2 ^ bit_length (n div 2)" by simp
    then have "2 * (n div 2 + 1) \<le> 2 * 2 ^ bit_length (n div 2)" by simp
    moreover have "n < 2 * (n div 2 + 1)" by presburger
    ultimately have "n < 2 ^ bit_length n" by (simp add: b)
    with lo show ?thesis by simp
  qed
qed

text \<open>The exponent of a positive rational is its binary exponent.\<close>

lemma exponent_bounds:
  assumes "0 < x"
  shows "pow2 (exponent x) \<le> x \<and> x < pow2 (exponent x + 1)"
proof -
  obtain p q where pq: "quotient_of x = (p, q)" by (cases "quotient_of x")
  then have q: "0 < q" by (rule quotient_of_denom_pos)
  from pq have x: "x = of_int p / of_int q" by (rule quotient_of_div)
  with assms q have p: "0 < p" by (simp add: zero_less_divide_iff)
  define bp where "bp = bit_length p"
  define bq where "bq = bit_length q"
  define e where "e = int bp - int bq"
  from bit_length_bounds [OF p] have pb: "(2::int) ^ bp \<le> 2 * p" "p < 2 ^ bp"
    by (simp_all add: bp_def)
  from bit_length_bounds [OF q] have qb: "(2::int) ^ bq \<le> 2 * q" "q < 2 ^ bq"
    by (simp_all add: bq_def)
  have Q: "(0::rat) < of_int q" using q by simp
  have lo: "pow2 (e - 1) \<le> x"
  proof -
    have "pow2 (e - 1) * pow2 (int bq + 1) = pow2 (int bp)"
      by (simp add: pow2_add [symmetric] e_def)
    then have eq: "pow2 (e - 1) * (2 * 2 ^ bq) = 2 ^ bp"
      by (simp only: pow2_Suc pow2_nat)
    have "of_int q \<le> (2::rat) ^ bq"
      using qb(2) by (metis of_int_numeral of_int_power of_int_le_iff less_imp_le)
    then have "pow2 (e - 1) * (2 * of_int q) \<le> pow2 (e - 1) * (2 * 2 ^ bq)"
      using pow2_pos [of "e - 1"] by (simp add: mult_left_mono)
    also have "\<dots> = 2 ^ bp" by (rule eq)
    also have "\<dots> \<le> 2 * of_int p"
      using pb(1) by (metis of_int_numeral of_int_power of_int_le_iff of_int_mult)
    finally have "pow2 (e - 1) * of_int q \<le> of_int p" by simp
    then show ?thesis using Q by (simp add: x pos_le_divide_eq)
  qed
  have hi: "x < pow2 (e + 1)"
  proof -
    have "pow2 (e + 1) * pow2 (int bq) = pow2 (int bp + 1)"
      by (simp add: pow2_add [symmetric] e_def)
    then have eq: "pow2 (e + 1) * 2 ^ bq = 2 * 2 ^ bp"
      by (simp only: pow2_Suc pow2_nat)
    have "(2::rat) ^ bq \<le> 2 * of_int q"
      using qb(1) by (metis of_int_numeral of_int_power of_int_le_iff of_int_mult)
    then have le: "pow2 (e + 1) * 2 ^ bq \<le> pow2 (e + 1) * (2 * of_int q)"
      using pow2_pos [of "e + 1"] by (simp add: mult_left_mono)
    have "of_int p < (2::rat) ^ bp"
      using pb(2) by (metis of_int_numeral of_int_power of_int_less_iff)
    then have "2 * of_int p < pow2 (e + 1) * 2 ^ bq" by (simp add: eq)
    with le have "of_int p < pow2 (e + 1) * of_int q" by simp
    then show ?thesis using Q by (simp add: x pos_divide_less_eq)
  qed
  have ex: "exponent x = (if pow2 e \<le> x then e else e - 1)"
    by (simp add: exponent_def pq Let_def e_def bp_def bq_def)
  show ?thesis
  proof (cases "pow2 e \<le> x")
    case True
    with hi ex show ?thesis by simp
  next
    case False
    with lo ex show ?thesis by simp
  qed
qed

lemma round_even_bounds: "\<lfloor>x\<rfloor> \<le> round_even x \<and> round_even x \<le> \<lceil>x\<rceil>"
  unfolding round_even_def Let_def by (auto simp: ceiling_altdef)

lemma round_even_nonneg: "0 \<le> x \<Longrightarrow> 0 \<le> round_even x"
  using round_even_bounds [of x] by (simp add: order_trans [of 0 "\<lfloor>x\<rfloor>"])

lemma round_even_le: "x \<le> of_int n \<Longrightarrow> round_even x \<le> n"
  using round_even_bounds [of x] by (meson ceiling_le order_trans)

text \<open>
  A number from 0 to below a power of two in the range of binary64 rounds to a finite
  value in that range.
\<close>

lemma binary64_bounded:
  assumes x: "0 \<le> x" "x < pow2 k" and k: "- 1021 \<le> k" "k \<le> 1023"
  shows "\<exists>y. binary64 x = Finite y \<and> 0 \<le> y \<and> y \<le> pow2 k"
proof (cases "x = 0")
  case True
  then show ?thesis using pow2_pos [of k] by (simp add: binary64_def)
next
  case False
  with x have pos: "0 < x" by simp
  define e where "e = max (exponent x) (- 1022)"
  define m where "m = round_even (x / pow2 (e - 52))"
  from exponent_bounds [OF pos] have eb: "pow2 (exponent x) \<le> x" "x < pow2 (exponent x + 1)"
    by simp_all
  from eb(1) x(2) have "pow2 (exponent x) < pow2 k" by simp
  then have "exponent x < k" by (rule pow2_less_imp)
  with k have e_k: "e + 1 \<le> k" by (simp add: e_def)
  with k have e_max: "e \<le> 1022" by simp
  have "x < pow2 (e + 1)"
    using eb(2) pow2_mono [of "exponent x + 1" "e + 1"] by (simp add: e_def)
  then have "x < pow2 (e - 52) * 2 ^ 53" by (simp only: pow2_53)
  then have "x / pow2 (e - 52) \<le> 2 ^ 53"
    using pow2_pos [of "e - 52"] by (simp add: pos_divide_le_eq mult.commute)
  then have "x / pow2 (e - 52) \<le> of_int (2 ^ 53)" by simp
  then have m_le: "m \<le> 2 ^ 53" unfolding m_def by (rule round_even_le)
  have "0 \<le> x / pow2 (e - 52)"
    using pos pow2_pos [of "e - 52"] by simp
  then have m_ge: "0 \<le> m" unfolding m_def by (rule round_even_nonneg)
  have val: "binary64 x = Finite (of_int m * pow2 (e - 52))"
    using pos e_max by (simp add: binary64_def Let_def e_def [symmetric] m_def [symmetric])
  have "of_int m * pow2 (e - 52) \<le> 2 ^ 53 * pow2 (e - 52)"
  proof (rule mult_right_mono)
    from m_le have "(of_int m :: rat) \<le> of_int (2 ^ 53)" by (simp only: of_int_le_iff)
    then show "(of_int m :: rat) \<le> 2 ^ 53" by simp
    show "0 \<le> pow2 (e - 52)" using pow2_pos [of "e - 52"] by simp
  qed
  also have "\<dots> = pow2 (e + 1)" by (simp only: mult.commute pow2_53)
  also have "\<dots> \<le> pow2 k" using e_k by (rule pow2_mono)
  finally have hi: "of_int m * pow2 (e - 52) \<le> pow2 k" .
  have lo: "0 \<le> of_int m * pow2 (e - 52)"
    using m_ge pow2_pos [of "e - 52"] by simp
  from val lo hi show ?thesis by blast
qed

text \<open>The literal \<^verbatim>\<open>1609.344\<close> as a binary64 value.\<close>

lemma miles_divisor: "binary64 (1609344 / 1000) = Finite (1769492441091539 / 1099511627776)"
  by code_simp

text \<open>
  A distance in meters that is finite and not negative gives rounded miles that are
  finite and not negative: no step of the conversion overflows.
\<close>

lemma rounded_miles_finite:
  assumes "0 \<le> meters" and "meters < 2 ^ 1024"
  shows "\<exists>t. one_decimal (divide_number (Finite meters) (binary64 (1609344 / 1000))) = Finite t \<and> 0 \<le> t"
proof -
  define c :: rat where "c = 1769492441091539 / 1099511627776"
  have c: "2 ^ 10 \<le> c" "0 < c" by (simp_all add: c_def)
  have "meters / c \<le> meters / 2 ^ 10"
    by (rule divide_left_mono) (use assms(1) c in simp_all)
  also have "\<dots> < 2 ^ 1024 / 2 ^ 10"
    using assms(2) by (simp add: divide_strict_right_mono)
  also have "\<dots> = pow2 (int 1014)" by (simp only: pow2_nat) simp
  finally have x1: "meters / c < pow2 1014" by simp
  have x1_0: "0 \<le> meters / c" using assms(1) c by simp
  from binary64_bounded [OF x1_0 x1] obtain y1 where
    y1: "binary64 (meters / c) = Finite y1" "0 \<le> y1" "y1 \<le> pow2 1014"
    by auto
  have p4: "pow2 1014 * 10 < pow2 1018"
  proof -
    have "pow2 1018 = pow2 1014 * pow2 (int 4)" by (simp add: pow2_add [symmetric])
    also have "\<dots> = pow2 1014 * 16" by (simp only: pow2_nat) simp
    finally show ?thesis using pow2_pos [of 1014] by simp
  qed
  have "y1 * 10 \<le> pow2 1014 * 10" using y1(3) by simp
  with p4 have x2: "y1 * 10 < pow2 1018" by simp
  have x2_0: "0 \<le> y1 * 10" using y1(2) by simp
  from binary64_bounded [OF x2_0 x2] obtain y2 where
    y2: "binary64 (y1 * 10) = Finite y2" "0 \<le> y2" "y2 \<le> pow2 1018"
    by auto
  have one: "1 \<le> pow2 1018" using pow2_mono [of 0 1018] by (simp add: pow2_def)
  have p1: "pow2 1019 = pow2 1018 * 2"
  proof -
    have "pow2 1019 = pow2 1018 * pow2 (int 1)" by (simp add: pow2_add [symmetric])
    then show ?thesis by (simp only: pow2_nat) simp
  qed
  have "of_int \<lfloor>y2 + 1 / 2\<rfloor> \<le> y2 + 1 / 2" by (rule of_int_floor_le)
  also have "\<dots> < pow2 1019" using y2(3) one by (simp add: p1)
  finally have x3: "of_int \<lfloor>y2 + 1 / 2\<rfloor> < pow2 1019" .
  have "0 \<le> \<lfloor>y2 + 1 / 2\<rfloor>" using y2(2) by simp
  then have x3_0: "(0::rat) \<le> of_int \<lfloor>y2 + 1 / 2\<rfloor>" by simp
  from binary64_bounded [OF x3_0 x3] obtain y3 where
    y3: "binary64 (of_int \<lfloor>y2 + 1 / 2\<rfloor>) = Finite y3" "0 \<le> y3" "y3 \<le> pow2 1019"
    by auto
  have "y3 / 10 \<le> y3" using y3(2) by simp
  also have "\<dots> < pow2 1020" using y3(3) pow2_strict_mono [of 1019 1020] by simp
  finally have x4: "y3 / 10 < pow2 1020" .
  have x4_0: "0 \<le> y3 / 10" using y3(2) by simp
  from binary64_bounded [OF x4_0 x4] obtain t where
    t: "binary64 (y3 / 10) = Finite t" "0 \<le> t"
    by auto
  have "one_decimal (divide_number (Finite meters) (binary64 (1609344 / 1000))) = Finite t"
    unfolding one_decimal_def miles_divisor c_def [symmetric]
    using c(2) by (simp add: y1(1) y2(1) y3(1) t(1))
  with t(2) show ?thesis by blast
qed

section \<open>Properties of the Route Assembler\<close>

lemma upper_char_idem: "upper_char (upper_char c) = upper_char c"
  unfolding upper_char_def Let_def by auto

lemma normKey_no_space: "filter (\<lambda>c. \<not> is_space c) (normKey s) = normKey s"
  by (simp add: normKey_spec)

lemma normKey_upper: "map upper_char (normKey s) = normKey s"
  by (simp add: normKey_def toUpperCase_def upper_char_idem)

lemma normKey_idem: "normKey (normKey s) = normKey s"
proof -
  have "normKey (normKey s) = map upper_char (filter (\<lambda>c. \<not> is_space c) (normKey s))"
    by (simp add: normKey_def toUpperCase_def strip_spaces_def)
  then show ?thesis by (simp add: normKey_no_space normKey_upper)
qed

lemma confirm_geocode_batches:
  "geocode_batches (snd (confirm geocode route_miles toIso allDraft)) =
     (if length (submitted_postcodes allDraft) < 2 then [] else [submitted_postcodes allDraft])"
  by (simp add: confirm_def Let_def split: fetch_result.splits sum.splits option.splits)


lemma count_list_filter: "count_list (filter P xs) k = (if P k then count_list xs k else 0)"
  by (induction xs) auto

lemma count_list_map: "count_list (map f xs) k = length (filter (\<lambda>x. f x = k) xs)"
  by (induction xs) auto

text \<open>
  C6 (amended). Whenever the drafts carry at least two non-empty keys, exactly one
  geocoding call is issued, and its batch is the list of the non-empty canonical keys of
  the drafts in draft order, one entry per draft: a key appears in the batch as many
  times as there are drafts with that key.
\<close>

theorem geocode_batch_keeps_duplicates:
  assumes "2 \<le> length (submitted_postcodes allDraft)"
  shows "geocode_batches (snd (confirm geocode route_miles toIso allDraft))
           = [submitted_postcodes allDraft] \<and>
         submitted_postcodes allDraft
           = filter (\<lambda>k. k \<noteq> []) (map (\<lambda>x. normKey (d_postcode x)) allDraft) \<and>
         (\<forall>k. k \<noteq> [] \<longrightarrow>
            count_list (submitted_postcodes allDraft) k
              = length (filter (\<lambda>x. normKey (d_postcode x) = k) allDraft))"
  using assms
  by (simp add: confirm_geocode_batches)
     (simp add: submitted_postcodes_def count_list_filter count_list_map)

text \<open>
  Whenever the geocoding answer holds no entry, or \<^verbatim>\<open>null\<close>, for at least one
  submitted postcode, \<open>confirm\<close> fails with the message that lists every such
  postcode, each in its display form, and the only call issued is the geocoding call.
\<close>

lemma missing_postcodes_all_named:
  assumes len: "2 \<le> length (submitted_postcodes allDraft)"
    and geo: "geocode (submitted_postcodes allDraft) = Response geo_status geo_text geo_body"
    and ok: "ok geo_status"
    and unresolved: "\<exists>pc \<in> set (submitted_postcodes allDraft). nullish (get_prop (geo_results geo_body) pc)"
  shows "confirm geocode route_miles toIso allDraft =
           (Inl (Message (''Postcode(s) not found: '' @
                   join '', '' (map formatUKPostcode
                     (filter (\<lambda>pc. nullish (get_prop (geo_results geo_body) pc))
                        (submitted_postcodes allDraft))))),
            [GeocodeRequest (submitted_postcodes allDraft)]) \<and>
         route_miles_calls (snd (confirm geocode route_miles toIso allDraft)) = []"
proof -
  have missing: "filter (\<lambda>pc. nullish (get_prop (geo_results geo_body) pc)) (submitted_postcodes allDraft) \<noteq> []"
    using unresolved by (auto simp: filter_empty_conv)
  have run: "confirm geocode route_miles toIso allDraft =
           (Inl (Message (''Postcode(s) not found: '' @
                   join '', '' (map formatUKPostcode
                     (filter (\<lambda>pc. nullish (get_prop (geo_results geo_body) pc))
                        (submitted_postcodes allDraft))))),
            [GeocodeRequest (submitted_postcodes allDraft)])"
    using len geo ok missing by (simp add: confirm_def Let_def)
  show ?thesis unfolding run by simp
qed

lemma is_space_blank: "is_space CHR '' ''"
  by (simp add: is_space_def)

lemma normKey_append_space: "normKey (a @ '' '' @ b) = normKey (a @ b)"
  by (simp add: normKey_def strip_spaces_def is_space_blank)

lemma normKey_formatUKPostcode: "normKey (formatUKPostcode pc) = normKey pc"
proof -
  define s where "s = normKey pc"
  have fmt: "formatUKPostcode pc =
      (if length s > 3 then take (length s - 3) s @ '' '' @ drop (length s - 3) s else s)"
    by (simp add: formatUKPostcode_normKey s_def)
  show ?thesis
  proof (cases "length s > 3")
    case True
    then have "normKey (formatUKPostcode pc) = normKey (take (length s - 3) s @ drop (length s - 3) s)"
      by (simp only: fmt if_True normKey_append_space)
    then show ?thesis by (simp add: s_def normKey_idem)
  next
    case False
    then show ?thesis by (simp add: fmt s_def normKey_idem)
  qed
qed

lemma finite_number_iff: "finite_number v \<longleftrightarrow> (\<exists>a. v = Some (JNum (Finite a)))"
proof (cases v rule: finite_number.cases)
  case (1 n)
  then show ?thesis by (cases n) simp_all
qed simp_all

lemma resolves_coords:
  assumes "resolves geo_map key"
  shows "\<exists>a b. or_null (opt_chain (get_prop geo_map key) ''lat'') = JNum (Finite a) \<and>
               or_null (opt_chain (get_prop geo_map key) ''lng'') = JNum (Finite b) \<and>
               number_of (opt_chain (get_prop geo_map key) ''lat'') = Finite a \<and>
               number_of (opt_chain (get_prop geo_map key) ''lng'') = Finite b"
proof -
  from assms obtain a where a: "opt_chain (get_prop geo_map key) ''lat'' = Some (JNum (Finite a))"
    unfolding resolves_def finite_number_iff by blast
  from assms obtain b where b: "opt_chain (get_prop geo_map key) ''lng'' = Some (JNum (Finite b))"
    unfolding resolves_def finite_number_iff by blast
  show ?thesis by (simp add: a b or_null_def)
qed

lemma build_stop_ok:
  assumes "planned_time_converts toIso s"
  shows "\<exists>iso. build_stop geo_map toIso idx s =
           Inr \<lparr> stop_order = idx + 1, postcode = formatUKPostcode (d_postcode s), name = d_name s,
                 planned_time = iso,
                 lat = or_null (opt_chain (get_prop geo_map (normKey (d_postcode s))) ''lat''),
                 lng = or_null (opt_chain (get_prop geo_map (normKey (d_postcode s))) ''lng'') \<rparr>"
proof (cases "trim (case d_planned_time s of None \<Rightarrow> [] | Some t \<Rightarrow> t) = []")
  case True
  then show ?thesis
    by (simp add: build_stop_def Let_def normKey_formatUKPostcode)
next
  case False
  with assms obtain iso where "toIso (trim (case d_planned_time s of None \<Rightarrow> [] | Some t \<Rightarrow> t)) = Inr iso"
    unfolding planned_time_converts_def Let_def
    by (cases "toIso (trim (case d_planned_time s of None \<Rightarrow> [] | Some t \<Rightarrow> t))") auto
  with False show ?thesis
    by (simp add: build_stop_def Let_def normKey_formatUKPostcode)
qed

lemma build_stops_ok:
  assumes "\<forall>s \<in> set ds. planned_time_converts toIso s"
  shows "\<exists>stops. build_stops geo_map toIso idx ds = Inr stops \<and>
           length stops = length ds \<and>
           map stop_order stops = [idx + 1 ..< idx + 1 + length ds] \<and>
           map postcode stops = map (\<lambda>s. formatUKPostcode (d_postcode s)) ds \<and>
           map name stops = map d_name ds \<and>
           map lat stops = map (\<lambda>s. or_null (opt_chain (get_prop geo_map (normKey (d_postcode s))) ''lat'')) ds \<and>
           map lng stops = map (\<lambda>s. or_null (opt_chain (get_prop geo_map (normKey (d_postcode s))) ''lng'')) ds"
  using assms
proof (induction ds arbitrary: idx)
  case Nil
  then show ?case by simp
next
  case (Cons s ds)
  from Cons.prems have "planned_time_converts toIso s" by simp
  from build_stop_ok [OF this, of geo_map idx] obtain iso where
    st: "build_stop geo_map toIso idx s =
           Inr \<lparr> stop_order = idx + 1, postcode = formatUKPostcode (d_postcode s), name = d_name s,
                 planned_time = iso,
                 lat = or_null (opt_chain (get_prop geo_map (normKey (d_postcode s))) ''lat''),
                 lng = or_null (opt_chain (get_prop geo_map (normKey (d_postcode s))) ''lng'') \<rparr>"
    by blast
  from Cons.prems have "\<forall>s \<in> set ds. planned_time_converts toIso s" by simp
  from Cons.IH [OF this, of "Suc idx"] obtain stops where
    rest: "build_stops geo_map toIso (Suc idx) ds = Inr stops" "length stops = length ds"
      "map stop_order stops = [Suc idx + 1 ..< Suc idx + 1 + length ds]"
      "map postcode stops = map (\<lambda>s. formatUKPostcode (d_postcode s)) ds"
      "map name stops = map d_name ds"
      "map lat stops = map (\<lambda>s. or_null (opt_chain (get_prop geo_map (normKey (d_postcode s))) ''lat'')) ds"
      "map lng stops = map (\<lambda>s. or_null (opt_chain (get_prop geo_map (normKey (d_postcode s))) ''lng'')) ds"
    by blast
  have "[idx + 1 ..< idx + 1 + length (s # ds)] = (idx + 1) # [Suc idx + 1 ..< Suc idx + 1 + length ds]"
    by (simp add: upt_rec)
  with st rest show ?case by simp
qed

lemma wire_request:
  assumes "\<forall>c \<in> set coords. \<exists>a b. c = (JNum (Finite a), JNum (Finite b))"
  shows "wire (JObj [(''coords'', JArr (map (\<lambda>c. JObj [(''lat'', fst c), (''lng'', snd c)]) coords))])
           = JObj [(''coords'', JArr (map (\<lambda>c. JObj [(''lat'', fst c), (''lng'', snd c)]) coords))]"
proof -
  have "map (\<lambda>c. JObj [(''lat'', wire (fst c)), (''lng'', wire (snd c))]) coords
          = map (\<lambda>c. JObj [(''lat'', fst c), (''lng'', snd c)]) coords"
    by (rule map_cong [OF refl]) (use assms in auto)
  then show ?thesis by (simp add: comp_def)
qed

lemma to_coords_numbers:
  assumes "\<forall>c \<in> set coords. \<exists>a b. c = (JNum (Finite a), JNum (Finite b))"
  shows "to_coords coerce (map (\<lambda>c. JObj [(''lat'', fst c), (''lng'', snd c)]) coords) =
           Inr (map (\<lambda>c. (number_of (Some (fst c)), number_of (Some (snd c)))) coords)"
  using assms
proof (induction coords)
  case Nil
  then show ?case by simp
next
  case (Cons c coords)
  then obtain a b where c: "c = (JNum (Finite a), JNum (Finite b))" by auto
  have "to_coord coerce (JObj [(''lat'', JNum (Finite a)), (''lng'', JNum (Finite b))])
          = Inr (Finite a, Finite b)"
    by (simp add: to_coord_def opt_chain_def)
  with Cons c show ?case by simp
qed

lemma finite_coords_numbers:
  assumes "\<forall>c \<in> set coords. \<exists>a b. c = (JNum (Finite a), JNum (Finite b))"
  shows "finite_coords (map (\<lambda>c. (number_of (Some (fst c)), number_of (Some (snd c)))) coords)
           = map (\<lambda>c. (number_of (Some (fst c)), number_of (Some (snd c)))) coords"
  using assms by (induction coords) (auto simp: finite_coords_def)

lemma route_miles_POST_numbers:
  assumes nums: "\<forall>c \<in> set coords. \<exists>a b. c = (JNum (Finite a), JNum (Finite b))"
    and len: "2 \<le> length coords"
  shows "route_miles_POST coerce osrm
           (Inr (wire (JObj [(''coords'', JArr (map (\<lambda>c. JObj [(''lat'', fst c), (''lng'', snd c)]) coords))])))
         = osrm_response (osrm (map (\<lambda>c. (number_of (Some (snd c)), number_of (Some (fst c)))) coords))"
  unfolding wire_request [OF nums]
  using len
  by (simp add: route_miles_POST_def json_or_empty_def opt_chain_def Let_def
      to_coords_numbers [OF nums] finite_coords_numbers [OF nums] comp_def)

lemma distance_response_number:
  assumes "route_distance js = Some (JNum meters)"
  shows "distance_response js =
           \<lparr> http_status = 200,
             http_body = JObj [(''miles'',
               wire (JNum (one_decimal (divide_number meters (binary64 (1609344 / 1000))))))] \<rparr>"
  using assms by (simp add: distance_response_def one_decimal_def Let_def)

lemma submitted_all:
  assumes "\<forall>s \<in> set allDraft. normKey (d_postcode s) \<noteq> []"
  shows "submitted_postcodes allDraft = map (\<lambda>x. normKey (d_postcode x)) allDraft"
  using assms by (simp add: submitted_postcodes_def filter_id_conv)

text \<open>
  C1 (amended). For every draft list of length at least 2 in which every normalized
  postcode resolves to a coordinate in the geocoding answer, every planned time is blank
  or is read by the date conversion, and the routing service answers the request of the
  route-miles endpoint with a distance in meters that is a finite number and not
  negative, \<open>confirm\<close> returns a stop list whose length is that of the input, whose
  \<open>stop_order\<close> values are 1 to N in order, in which every stop has \<open>lat\<close> and \<open>lng\<close>
  other than null, and a \<open>totalMiles\<close> that is the distance divided by 1609.344 and
  rounded to one decimal place, in binary64 arithmetic, and is not negative.
\<close>

theorem route_assembler_result:
  assumes len: "2 \<le> length allDraft"
    and geo: "geocode (submitted_postcodes allDraft) = Response geo_status geo_text geo_body"
    and geo_ok: "ok geo_status"
    and res: "\<forall>s \<in> set allDraft. resolves (geo_results geo_body) (normKey (d_postcode s))"
    and times: "\<forall>s \<in> set allDraft. planned_time_converts toIso s"
    and osrm: "osrm (map (draft_lnglat (geo_results geo_body)) allDraft) = Response osrm_status osrm_text (Inr js)"
    and osrm_ok: "ok osrm_status"
    and dist: "route_distance js = Some (JNum (Finite meters))"
    and nonneg: "0 \<le> meters"
    and finite: "meters < 2 ^ 1024"
  shows "\<exists>stops total.
           confirm geocode (route_miles_fetch coerce osrm) toIso allDraft =
             (Inr (stops, Some (Finite total)),
              [GeocodeRequest (submitted_postcodes allDraft),
               RouteMilesRequest (map (\<lambda>s. (lat s, lng s)) stops)]) \<and>
           length stops = length allDraft \<and>
           map stop_order stops = [1 ..< Suc (length allDraft)] \<and>
           (\<forall>s \<in> set stops. lat s \<noteq> JNull \<and> lng s \<noteq> JNull) \<and>
           Finite total = one_decimal (divide_number (Finite meters) (binary64 (1609344 / 1000))) \<and>
           0 \<le> total"
proof -
  let ?m = "geo_results geo_body"
  let ?lat = "\<lambda>s. or_null (opt_chain (get_prop ?m (normKey (d_postcode s))) ''lat'')"
  let ?lng = "\<lambda>s. or_null (opt_chain (get_prop ?m (normKey (d_postcode s))) ''lng'')"
  from rounded_miles_finite [OF nonneg finite] obtain tot where
    tot: "one_decimal (divide_number (Finite meters) (binary64 (1609344 / 1000))) = Finite tot"
      "0 \<le> tot"
    by blast
  have nonempty: "\<forall>s \<in> set allDraft. normKey (d_postcode s) \<noteq> []"
    using res by (simp add: resolves_def)
  have pcs: "submitted_postcodes allDraft = map (\<lambda>x. normKey (d_postcode x)) allDraft"
    by (rule submitted_all [OF nonempty])
  have pcs_len: "\<not> length (submitted_postcodes allDraft) < 2"
    using len by (simp add: pcs)
  have no_missing: "filter (\<lambda>pc. nullish (get_prop ?m pc)) (submitted_postcodes allDraft) = []"
  proof -
    have "\<not> nullish (get_prop ?m (normKey (d_postcode s)))" if "s \<in> set allDraft" for s
    proof -
      from res that have "resolves ?m (normKey (d_postcode s))" by blast
      then have "finite_number (opt_chain (get_prop ?m (normKey (d_postcode s))) ''lat'')"
        by (simp add: resolves_def)
      then show ?thesis
        by (cases "get_prop ?m (normKey (d_postcode s))") (auto simp: nullish_def opt_chain_def)
    qed
    then show ?thesis by (auto simp: pcs filter_empty_conv)
  qed
  from build_stops_ok [OF times, of ?m 0] obtain stops where
    stops: "build_stops ?m toIso 0 allDraft = Inr stops" "length stops = length allDraft"
      "map stop_order stops = [0 + 1 ..< 0 + 1 + length allDraft]"
      "map lat stops = map ?lat allDraft" "map lng stops = map ?lng allDraft"
    by blast
  have coord: "\<exists>a b. ?lat s = JNum (Finite a) \<and> ?lng s = JNum (Finite b) \<and>
                 draft_lnglat ?m s = (Finite b, Finite a)" if "s \<in> set allDraft" for s
  proof -
    from res that have "resolves ?m (normKey (d_postcode s))" by blast
    from resolves_coords [OF this] show ?thesis
      by (auto simp: draft_lnglat_def Let_def)
  qed
  have lat_eq: "lat (stops ! i) = ?lat (allDraft ! i)" and lng_eq: "lng (stops ! i) = ?lng (allDraft ! i)"
    if "i < length allDraft" for i
  proof -
    have "map lat stops ! i = map ?lat allDraft ! i" by (simp only: stops(4))
    with that stops(2) show "lat (stops ! i) = ?lat (allDraft ! i)" by simp
    have "map lng stops ! i = map ?lng allDraft ! i" by (simp only: stops(5))
    with that stops(2) show "lng (stops ! i) = ?lng (allDraft ! i)" by simp
  qed
  have stop_num: "\<exists>a b. lat s = JNum (Finite a) \<and> lng s = JNum (Finite b)" if "s \<in> set stops" for s
  proof -
    from that obtain i where i: "i < length stops" "s = stops ! i"
      by (auto simp: in_set_conv_nth)
    then have "allDraft ! i \<in> set allDraft" using stops(2) by simp
    from coord [OF this] lat_eq [of i] lng_eq [of i] i stops(2) show ?thesis by auto
  qed
  have not_null: "\<forall>s \<in> set stops. lat s \<noteq> JNull \<and> lng s \<noteq> JNull"
    using stop_num by fastforce
  have no_bad: "find (\<lambda>s. lat s = JNull \<or> lng s = JNull) stops = None"
    using not_null by (simp add: find_None_iff)
  let ?coords = "map (\<lambda>s. (lat s, lng s)) stops"
  have nums: "\<forall>c \<in> set ?coords. \<exists>a b. c = (JNum (Finite a), JNum (Finite b))"
    using stop_num by auto
  have clen: "2 \<le> length ?coords" using len stops(2) by simp
  have request: "map (\<lambda>c. (number_of (Some (snd c)), number_of (Some (fst c)))) ?coords
                   = map (draft_lnglat ?m) allDraft"
  proof (rule nth_equalityI)
    show "length (map (\<lambda>c. (number_of (Some (snd c)), number_of (Some (fst c)))) ?coords)
            = length (map (draft_lnglat ?m) allDraft)"
      by (simp add: stops(2))
  next
    fix i assume "i < length (map (\<lambda>c. (number_of (Some (snd c)), number_of (Some (fst c)))) ?coords)"
    then have i: "i < length allDraft" by (simp add: stops(2))
    then have "allDraft ! i \<in> set allDraft" by simp
    from coord [OF this] lat_eq [OF i] lng_eq [OF i] i stops(2)
    show "map (\<lambda>c. (number_of (Some (snd c)), number_of (Some (fst c)))) ?coords ! i
            = map (draft_lnglat ?m) allDraft ! i"
      by auto
  qed
  have "route_miles_POST coerce osrm
          (Inr (wire (JObj [(''coords'', JArr (map (\<lambda>c. JObj [(''lat'', fst c), (''lng'', snd c)]) ?coords))])))
        = osrm_response (Response osrm_status osrm_text (Inr js))"
    by (simp only: route_miles_POST_numbers [OF nums clen] request osrm)
  also have "\<dots> = distance_response js"
    using osrm_ok by (simp add: osrm_response_def)
  finally have post: "route_miles_POST coerce osrm
          (Inr (wire (JObj [(''coords'', JArr (map (\<lambda>c. JObj [(''lat'', fst c), (''lng'', snd c)]) ?coords))])))
        = \<lparr> http_status = 200, http_body = JObj [(''miles'', JNum (Finite tot))] \<rparr>"
    by (simp only: distance_response_number [OF dist] tot(1)) simp
  have fetch: "route_miles_fetch coerce osrm ?coords =
                 Response 200 [] (Inr (JObj [(''miles'', JNum (Finite tot))]))"
    unfolding route_miles_fetch_def Let_def post by simp
  have total: "number_or_null (opt_chain (Some (json_or_empty (Inr (JObj [(''miles'', JNum (Finite tot))])))) ''miles'')
                 = Some (Finite tot)"
    by (simp add: json_or_empty_def opt_chain_def)
  have run: "confirm geocode (route_miles_fetch coerce osrm) toIso allDraft =
             (Inr (stops, Some (Finite tot)),
              [GeocodeRequest (submitted_postcodes allDraft), RouteMilesRequest ?coords])"
    using pcs_len geo geo_ok
    by (simp add: confirm_def Let_def no_missing stops(1) no_bad fetch total ok_def)
  have "map stop_order stops = [1 ..< Suc (length allDraft)]"
    using stops(3) by simp
  moreover note run stops(2) not_null tot(1) [symmetric] tot(2)
  ultimately show ?thesis by blast
qed

subsection \<open>Examples\<close>

text \<open>
  In the scenario of the specification the key of the collection point is submitted
  twice.
\<close>

theorem geocode_batch_keeps_duplicates_witness:
  "2 \<le> length (submitted_postcodes example_drafts) \<and>
   geocode_batches (snd (confirm example_geocode (route_miles_fetch example_coerce example_osrm)
                           (localDatetimeToIso 0) example_drafts))
     = [[''WN50LR'', ''WS138NF'', ''WN50LR'']] \<and>
   count_list (submitted_postcodes example_drafts) ''WN50LR'' = 2"
proof -
  have pcs: "submitted_postcodes example_drafts = [''WN50LR'', ''WS138NF'', ''WN50LR'']"
    by code_simp
  have h: "2 \<le> length (submitted_postcodes example_drafts)"
    by (simp add: pcs)
  have n: "length (filter (\<lambda>x. normKey (d_postcode x) = ''WN50LR'') example_drafts) = 2"
    by code_simp
  note run = geocode_batch_keeps_duplicates [OF h, of example_geocode
      "route_miles_fetch example_coerce example_osrm" "localDatetimeToIso 0"]
  from run have batch: "geocode_batches (snd (confirm example_geocode
        (route_miles_fetch example_coerce example_osrm) (localDatetimeToIso 0) example_drafts))
      = [submitted_postcodes example_drafts]"
    by (rule conjunct1)
  from run have "''WN50LR'' \<noteq> [] \<longrightarrow> count_list (submitted_postcodes example_drafts) ''WN50LR''
      = length (filter (\<lambda>x. normKey (d_postcode x) = ''WN50LR'') example_drafts)"
    by blast
  then have count: "count_list (submitted_postcodes example_drafts) ''WN50LR'' = 2"
    by (simp add: n)
  show ?thesis
    using h batch count by (simp add: pcs)
qed

text \<open>The batch of that call holds a key twice: it is not a deduplicated set.\<close>

theorem geocode_batch_counterexample:
  "geocode_batches (snd (confirm example_geocode (route_miles_fetch example_coerce example_osrm)
                           (localDatetimeToIso 0) example_drafts))
     = [[''WN50LR'', ''WS138NF'', ''WN50LR'']] \<and>
   \<not> distinct [''WN50LR'', ''WS138NF'', ''WN50LR'']"
  by code_simp

text \<open>
  Two of three postcodes have no entry, one answered with \<^verbatim>\<open>null\<close> and one left
  out of the answer: the message names both.
\<close>

lemma missing_postcodes_example:
  "confirm example_geocode (route_miles_fetch example_coerce example_osrm) (localDatetimeToIso 0)
       unresolved_drafts
     = (Inl (Message ''Postcode(s) not found: ZZ9 9ZZ, QQ1 1QQ''),
        [GeocodeRequest [''WN50LR'', ''ZZ99ZZ'', ''QQ11QQ'']])"
  by code_simp

text \<open>
  C5. The geocoding endpoint answers a postcode that the service knows without a
  position with an entry whose \<^verbatim>\<open>lat\<close> and \<^verbatim>\<open>lng\<close> are \<^verbatim>\<open>null\<close>. Such
  an entry is not \<^verbatim>\<open>null\<close> itself, so the postcode is not counted as missing, and
  the later check for stops without coordinates reports the first such stop only. With
  two such postcodes submitted, neither resolves to a coordinate, no route-miles call is
  issued, and the message names the first postcode and not the second.
\<close>

theorem unresolved_postcodes_first_named_only:
  "submitted_postcodes island_drafts = [''JE23XP'', ''IM11AA''] \<and>
   \<not> resolves (geo_results (Inr island_geo_body)) ''JE23XP'' \<and>
   \<not> resolves (geo_results (Inr island_geo_body)) ''IM11AA'' \<and>
   confirm (\<lambda>batch. Response 200 [] (Inr island_geo_body))
       (route_miles_fetch example_coerce example_osrm) (localDatetimeToIso 0) island_drafts
     = (Inl (Message ''Missing coordinates for: JE2 3XP''), [GeocodeRequest [''JE23XP'', ''IM11AA'']]) \<and>
   route_miles_calls
     (snd (confirm (\<lambda>batch. Response 200 [] (Inr island_geo_body))
             (route_miles_fetch example_coerce example_osrm) (localDatetimeToIso 0) island_drafts)) = []"
  by code_simp

text \<open>
  The scenario of the specification, with a routed distance of 263 km: 163.4 miles.
\<close>

theorem route_assembler_result_witness:
  "2 \<le> length example_drafts \<and>
   (\<exists>stops total.
      confirm example_geocode (route_miles_fetch example_coerce example_osrm)
          (localDatetimeToIso 0) example_drafts
        = (Inr (stops, Some (Finite total)),
           [GeocodeRequest [''WN50LR'', ''WS138NF'', ''WN50LR''],
            RouteMilesRequest (map (\<lambda>s. (lat s, lng s)) stops)]) \<and>
      length stops = 3 \<and>
      map stop_order stops = [1, 2, 3] \<and>
      list_all (\<lambda>s. lat s \<noteq> JNull \<and> lng s \<noteq> JNull) stops \<and>
      Finite total = binary64 (1634 / 10) \<and> 0 \<le> total)"
proof -
  have pcs: "submitted_postcodes example_drafts = [''WN50LR'', ''WS138NF'', ''WN50LR'']"
    by code_simp
  have len: "2 \<le> length example_drafts"
    by (simp add: example_drafts_def)
  have geo: "example_geocode (submitted_postcodes example_drafts) = Response 200 [] (Inr example_geo_body)"
    by (simp add: example_geocode_def)
  have ok: "ok 200" by (simp add: ok_def)
  have res: "\<forall>s \<in> set example_drafts. resolves (geo_results (Inr example_geo_body)) (normKey (d_postcode s))"
    by code_simp
  have times: "\<forall>s \<in> set example_drafts. planned_time_converts (localDatetimeToIso 0) s"
    by code_simp
  have osrm: "example_osrm (map (draft_lnglat (geo_results (Inr example_geo_body))) example_drafts)
                = Response 200 [] (Inr example_route)"
    by (simp add: example_osrm_def)
  have dist: "route_distance example_route = Some (JNum (Finite 263000))"
    by code_simp
  have nonneg: "(0::rat) \<le> 263000" by simp
  have finite: "(263000::rat) < 2 ^ 1024" by simp
  have miles: "one_decimal (divide_number (Finite 263000) (binary64 (1609344 / 1000))) = binary64 (1634 / 10)"
    by code_simp
  have three: "[1 ..< Suc (length example_drafts)] = [1, 2, 3]"
    by code_simp
  have n: "length example_drafts = 3"
    by (simp add: example_drafts_def)
  from route_assembler_result [where allDraft = example_drafts and geocode = example_geocode
      and geo_status = 200 and geo_text = "[]" and geo_body = "Inr example_geo_body"
      and toIso = "localDatetimeToIso 0" and osrm = example_osrm and osrm_status = 200 and osrm_text = "[]"
      and js = example_route and meters = 263000 and coerce = example_coerce,
      OF len geo ok res times osrm ok dist nonneg finite]
  obtain stops total where
    run: "confirm example_geocode (route_miles_fetch example_coerce example_osrm)
            (localDatetimeToIso 0) example_drafts
          = (Inr (stops, Some (Finite total)),
             [GeocodeRequest (submitted_postcodes example_drafts),
              RouteMilesRequest (map (\<lambda>s. (lat s, lng s)) stops)])"
    and props: "length stops = length example_drafts"
      "map stop_order stops = [1 ..< Suc (length example_drafts)]"
      "\<forall>s \<in> set stops. lat s \<noteq> JNull \<and> lng s \<noteq> JNull"
      "Finite total = one_decimal (divide_number (Finite 263000) (binary64 (1609344 / 1000)))"
      "0 \<le> total"
    by blast
  have "\<exists>stops total.
      confirm example_geocode (route_miles_fetch example_coerce example_osrm)
          (localDatetimeToIso 0) example_drafts
        = (Inr (stops, Some (Finite total)),
           [GeocodeRequest [''WN50LR'', ''WS138NF'', ''WN50LR''],
            RouteMilesRequest (map (\<lambda>s. (lat s, lng s)) stops)]) \<and>
      length stops = 3 \<and>
      map stop_order stops = [1, 2, 3] \<and>
      list_all (\<lambda>s. lat s \<noteq> JNull \<and> lng s \<noteq> JNull) stops \<and>
      Finite total = binary64 (1634 / 10) \<and> 0 \<le> total"
  proof (intro exI conjI)
    show "confirm example_geocode (route_miles_fetch example_coerce example_osrm)
          (localDatetimeToIso 0) example_drafts
        = (Inr (stops, Some (Finite total)),
           [GeocodeRequest [''WN50LR'', ''WS138NF'', ''WN50LR''],
            RouteMilesRequest (map (\<lambda>s. (lat s, lng s)) stops)])"
      by (rule run [unfolded pcs])
    show "length stops = 3"
      using props(1) by (simp only: n)
    show "map stop_order stops = [1, 2, 3]"
      using props(2) by (simp only: three)
    show "list_all (\<lambda>s. lat s \<noteq> JNull \<and> lng s \<noteq> JNull) stops"
      using props(3) by (simp add: list_all_iff)
    show "Finite total = binary64 (1634 / 10)"
      using props(4) by (simp only: miles)
    show "0 \<le> total" by (rule props(5))
  qed
  with len show ?thesis by (rule conjI)
qed

text \<open>
  The same drafts, every postcode resolving as before, while the routing service cannot
  be reached: the route-miles endpoint answers 500 and \<open>confirm\<close> fails, after both
  calls, with no stop list.
\<close>

theorem route_assembler_counterexample:
  "2 \<le> length example_drafts \<and>
   list_all (\<lambda>s. resolves (geo_results (Inr example_geo_body)) (normKey (d_postcode s))) example_drafts \<and>
   fst (confirm example_geocode (route_miles_fetch example_coerce (\<lambda>coords. Rejected ''fetch failed''))
          (localDatetimeToIso 0) example_drafts)
     = Inl (RoadDistanceFailed (JStr ''fetch failed'')) \<and>
   length (route_miles_calls
     (snd (confirm example_geocode (route_miles_fetch example_coerce (\<lambda>coords. Rejected ''fetch failed''))
             (localDatetimeToIso 0) example_drafts))) = 1"
  by code_simp

section \<open>Properties of the route-miles endpoint\<close>




subsection \<open>Examples\<close>


text \<open>
  C10. Two entries whose \<^verbatim>\<open>lat\<close> and \<^verbatim>\<open>lng\<close> are \<^verbatim>\<open>null\<close>: no entry has a
  number, but \<^verbatim>\<open>Number(null)\<close> is 0, so both entries are kept, and the request is
  routed from (0, 0) to (0, 0) and answered 200 with miles. Two entries in which
  \<^verbatim>\<open>lat\<close> and \<^verbatim>\<open>lng\<close> are missing are dropped, and the request is answered 400, as
  is a request whose numbers are not finite.
\<close>

theorem route_miles_null_entries_routed:
  "length null_coords = 2 \<and>
   filter numeric_entry null_coords = [] \<and>
   route_miles_POST example_coerce
       (expecting [(Finite 0, Finite 0), (Finite 0, Finite 0)] example_route)
       (Inr (JObj [(''coords'', JArr null_coords)]))
     = \<lparr> http_status = 200, http_body = JObj [(''miles'', json_number (1634 / 10))] \<rparr> \<and>
   route_miles_POST example_coerce
       (expecting [(Finite 0, Finite 0), (Finite 0, Finite 0)] example_route)
       (Inr (JObj [(''coords'', JArr [JObj [], JObj []])]))
     = error_response ''coords[] must contain valid lat/lng values'' 400 \<and>
   route_miles_POST example_coerce
       (expecting [(Finite 0, Finite 0), (Finite 0, Finite 0)] example_route)
       (Inr (JObj [(''coords'', JArr [JObj [(''lat'', JNum PosInfinity), (''lng'', json_number 1)],
                                     JObj [(''lat'', JNum PosInfinity), (''lng'', json_number 1)]])]))
     = error_response ''coords[] must contain valid lat/lng values'' 400"
  by code_simp

section \<open>Properties of the date conversion\<close>

lemma div_succ:
  fixes a k :: int
  assumes k: "0 < k"
  shows "(a + 1) div k = a div k + (if (a + 1) mod k = 0 then 1 else 0)"
proof -
  define q where "q = a div k"
  define r where "r = a mod k"
  have a: "a = k * q + r" by (simp add: q_def r_def)
  have r: "0 \<le> r" "r < k" using k by (simp_all add: r_def)
  show ?thesis
  proof (cases "r + 1 = k")
    case True
    have eq: "a + 1 = k * (q + 1) + 0" using a True by (simp add: algebra_simps)
    have "(a + 1) div k = q + 1"
      by (rule int_div_pos_eq [OF eq]) (use k in simp_all)
    moreover have "(a + 1) mod k = 0"
      by (rule int_mod_pos_eq [OF eq]) (use k in simp_all)
    ultimately show ?thesis by (simp add: q_def)
  next
    case False
    with r have lt: "r + 1 < k" by simp
    have eq: "a + 1 = k * q + (r + 1)" using a by simp
    have "(a + 1) div k = q"
      by (rule int_div_pos_eq [OF eq]) (use r lt in simp_all)
    moreover have "(a + 1) mod k = r + 1"
      by (rule int_mod_pos_eq [OF eq]) (use r lt in simp_all)
    ultimately show ?thesis using r by (simp add: q_def)
  qed
qed

lemma div_bounds:
  fixes a k :: int
  assumes "0 < k"
  shows "k * (a div k) \<le> a" and "a < k * (a div k) + k"
proof -
  have "a = k * (a div k) + a mod k" by simp
  moreover have "0 \<le> a mod k" "a mod k < k" using assms by simp_all
  ultimately show "k * (a div k) \<le> a" and "a < k * (a div k) + k" by linarith+
qed


lemma mod_shift_4: "((y::int) - 1968) mod 4 = y mod 4"
proof -
  have "y - 1968 = y + 4 * (- 492)" by simp
  then show ?thesis by (simp only: mod_mult_self2)
qed

lemma mod_shift_100: "((y::int) - 1900) mod 100 = y mod 100"
proof -
  have "y - 1900 = y + 100 * (- 19)" by simp
  then show ?thesis by (simp only: mod_mult_self2)
qed

lemma mod_shift_400: "((y::int) - 1600) mod 400 = y mod 400"
proof -
  have "y - 1600 = y + 400 * (- 4)" by simp
  then show ?thesis by (simp only: mod_mult_self2)
qed

lemma mod_400_100: "(y::int) mod 400 = 0 \<Longrightarrow> y mod 100 = 0"
proof -
  assume "y mod 400 = 0"
  then have "400 dvd y" by (simp add: dvd_eq_mod_eq_0)
  moreover have "(100::int) dvd 400" by simp
  ultimately have "100 dvd y" by (rule dvd_trans [rotated])
  then show ?thesis by (simp add: dvd_eq_mod_eq_0)
qed

lemma mod_100_4: "(y::int) mod 100 = 0 \<Longrightarrow> y mod 4 = 0"
proof -
  assume "y mod 100 = 0"
  then have "100 dvd y" by (simp add: dvd_eq_mod_eq_0)
  moreover have "(4::int) dvd 100" by simp
  ultimately have "4 dvd y" by (rule dvd_trans [rotated])
  then show ?thesis by (simp add: dvd_eq_mod_eq_0)
qed

lemma DayFromYear_step:
  "DayFromYear (y + 1) = DayFromYear y + (if leap_year y then 366 else 365)"
proof -
  define A where "A = (y - 1969) div 4"
  define B where "B = (y - 1901) div 100"
  define C where "C = (y - 1601) div 400"
  have a: "(y + 1 - 1969) div 4 = A + (if y mod 4 = 0 then 1 else 0)"
    using div_succ [of 4 "y - 1969"] mod_shift_4 [of y] by (simp add: algebra_simps A_def)
  have b: "(y + 1 - 1901) div 100 = B + (if y mod 100 = 0 then 1 else 0)"
    using div_succ [of 100 "y - 1901"] mod_shift_100 [of y] by (simp add: algebra_simps B_def)
  have c: "(y + 1 - 1601) div 400 = C + (if y mod 400 = 0 then 1 else 0)"
    using div_succ [of 400 "y - 1601"] mod_shift_400 [of y] by (simp add: algebra_simps C_def)
  have next_year: "DayFromYear (y + 1) =
      365 * (y + 1 - 1970) + (A + (if y mod 4 = 0 then 1 else 0))
        - (B + (if y mod 100 = 0 then 1 else 0)) + (C + (if y mod 400 = 0 then 1 else 0))"
    by (simp only: DayFromYear_def a b c)
  have this_year: "DayFromYear y = 365 * (y - 1970) + A - B + C"
    by (simp only: DayFromYear_def A_def B_def C_def)
  show ?thesis
  proof (cases "y mod 4 = 0")
    case False
    with mod_100_4 [of y] have n100: "y mod 100 \<noteq> 0" by auto
    with mod_400_100 [of y] have n400: "y mod 400 \<noteq> 0" by auto
    from False n100 n400 show ?thesis
      by (simp add: next_year this_year leap_year_def)
  next
    case four: True
    show ?thesis
    proof (cases "y mod 100 = 0")
      case False
      with mod_400_100 [of y] have n400: "y mod 400 \<noteq> 0" by auto
      from four False n400 show ?thesis
        by (simp add: next_year this_year leap_year_def)
    next
      case hundred: True
      show ?thesis
      proof (cases "y mod 400 = 0")
        case True
        with four hundred show ?thesis
          by (simp add: next_year this_year leap_year_def)
      next
        case False
        with four hundred show ?thesis
          by (simp add: next_year this_year leap_year_def)
      qed
    qed
  qed
qed

lemma year_estimate_low:
  "DayFromYear (1970 + (d * 400) div 146097 - 1) \<le> d"
proof -
  define q where "q = (d * 400) div 146097"
  define A where "A = (q - 1 - 1969 + 1970) div 4"
  define B where "B = (q - 1 - 1901 + 1970) div 100"
  define C where "C = (q - 1 - 1601 + 1970) div 400"
  have q: "146097 * q \<le> d * 400"
    unfolding q_def by (rule div_bounds(1)) simp
  have a: "4 * A \<le> q - 1 - 1969 + 1970"
    unfolding A_def by (rule div_bounds(1)) simp
  have b: "q - 1 - 1901 + 1970 < 100 * B + 100"
    unfolding B_def by (rule div_bounds(2)) simp
  have c: "400 * C \<le> q - 1 - 1601 + 1970"
    unfolding C_def by (rule div_bounds(1)) simp
  have "DayFromYear (1970 + q - 1) = 365 * (q - 1) + A - B + C"
    by (simp add: DayFromYear_def A_def B_def C_def algebra_simps)
  moreover have "365 * (q - 1) + A - B + C \<le> d"
  proof -
    have a': "400 * A \<le> 100 * q" using a by simp
    have b': "4 * q - 128 < 400 * B" using b by simp
    have c': "400 * C \<le> q + 368" using c by simp
    have "400 * (365 * (q - 1) + A - B + C) = 146000 * q - 146000 + 400 * A - 400 * B + 400 * C"
      by (simp add: algebra_simps)
    also have "\<dots> \<le> 146000 * q - 146000 + 100 * q - (4 * q - 128) + (q + 368)"
      using a' b' c' by simp
    also have "\<dots> \<le> 146097 * q" by simp
    also have "\<dots> \<le> 400 * d" using q by simp
    finally show ?thesis by simp
  qed
  ultimately show ?thesis unfolding q_def by simp
qed

lemma year_estimate_high:
  "d < DayFromYear (1970 + (d * 400) div 146097 + 2)"
proof -
  define q where "q = (d * 400) div 146097"
  define A where "A = (q + 2 - 1969 + 1970) div 4"
  define B where "B = (q + 2 - 1901 + 1970) div 100"
  define C where "C = (q + 2 - 1601 + 1970) div 400"
  have q: "d * 400 < 146097 * q + 146097"
    unfolding q_def by (rule div_bounds(2)) simp
  have a: "q + 2 - 1969 + 1970 < 4 * A + 4"
    unfolding A_def by (rule div_bounds(2)) simp
  have b: "100 * B \<le> q + 2 - 1901 + 1970"
    unfolding B_def by (rule div_bounds(1)) simp
  have c: "q + 2 - 1601 + 1970 < 400 * C + 400"
    unfolding C_def by (rule div_bounds(2)) simp
  have "DayFromYear (1970 + q + 2) = 365 * (q + 2) + A - B + C"
    by (simp add: DayFromYear_def A_def B_def C_def algebra_simps)
  moreover have "d < 365 * (q + 2) + A - B + C"
  proof -
    have a': "100 * q - 100 < 400 * A" using a by simp
    have b': "400 * B \<le> 4 * q + 284" using b by simp
    have c': "q - 29 < 400 * C" using c by simp
    have "400 * d < 146097 * q + 146097" using q by simp
    also have "\<dots> \<le> 146000 * q + 292000 + (100 * q - 100) - (4 * q + 284) + (q - 29)"
      by simp
    also have "\<dots> < 146000 * q + 292000 + 400 * A - 400 * B + 400 * C"
      using a' b' c' by simp
    also have "\<dots> = 400 * (365 * (q + 2) + A - B + C)"
      by (simp add: algebra_simps)
    finally show ?thesis by simp
  qed
  ultimately show ?thesis unfolding q_def by simp
qed

text \<open>
  \<open>year_of_day\<close> is YearFromTime: the year whose first day is not after the day and
  whose successor's first day is.
\<close>

lemma year_of_day_bracket:
  "DayFromYear (year_of_day d) \<le> d \<and> d < DayFromYear (year_of_day d + 1)"
proof -
  define y where "y = 1970 + (d * 400) div 146097"
  have low: "DayFromYear (y - 1) \<le> d"
    using year_estimate_low [of d] by (simp add: y_def)
  have high: "d < DayFromYear (y + 1 + 1)"
    using year_estimate_high [of d] by (simp add: y_def algebra_simps)
  have yd: "year_of_day d =
      (if DayFromYear (y + 1) \<le> d then y + 1 else if DayFromYear y \<le> d then y else y - 1)"
    by (simp add: year_of_day_def Let_def y_def)
  show ?thesis
  proof (cases "DayFromYear (y + 1) \<le> d")
    case True
    with high show ?thesis by (simp add: yd)
  next
    case False
    show ?thesis
    proof (cases "DayFromYear y \<le> d")
      case True
      with False show ?thesis by (simp add: yd)
    next
      case no: False
      with False low show ?thesis by (simp add: yd)
    qed
  qed
qed

lemma DayFromYear_less: "DayFromYear y < DayFromYear (y + 1)"
  by (simp add: DayFromYear_step)

lemma DayFromYear_mono: "y \<le> y' \<Longrightarrow> DayFromYear y \<le> DayFromYear y'"
proof (induction y' rule: int_ge_induct)
  case base
  show ?case by simp
next
  case (step i)
  with DayFromYear_less [of i] show ?case by simp
qed

lemma year_of_day_unique:
  assumes "DayFromYear y \<le> d" and "d < DayFromYear (y + 1)"
  shows "year_of_day d = y"
proof -
  define Y where "Y = year_of_day d"
  from year_of_day_bracket [of d] have Y: "DayFromYear Y \<le> d" "d < DayFromYear (Y + 1)"
    by (simp_all add: Y_def)
  have "\<not> Y < y"
  proof
    assume "Y < y"
    then have "DayFromYear (Y + 1) \<le> DayFromYear y" by (intro DayFromYear_mono) simp
    with assms(1) Y(2) show False by simp
  qed
  moreover have "\<not> y < Y"
  proof
    assume "y < Y"
    then have "DayFromYear (y + 1) \<le> DayFromYear Y" by (intro DayFromYear_mono) simp
    with assms(2) Y(1) show False by simp
  qed
  ultimately show ?thesis by (simp add: Y_def)
qed

lemma month_start_values:
  "month_start l 0 = 0" "month_start l 1 = 31"
  "month_start l 2 = 59 + (if l then 1 else 0)" "month_start l 3 = 90 + (if l then 1 else 0)"
  "month_start l 4 = 120 + (if l then 1 else 0)" "month_start l 5 = 151 + (if l then 1 else 0)"
  "month_start l 6 = 181 + (if l then 1 else 0)" "month_start l 7 = 212 + (if l then 1 else 0)"
  "month_start l 8 = 243 + (if l then 1 else 0)" "month_start l 9 = 273 + (if l then 1 else 0)"
  "month_start l 10 = 304 + (if l then 1 else 0)" "month_start l 11 = 334 + (if l then 1 else 0)"
  "month_start l 12 = 365 + (if l then 1 else 0)" "month_start l (Suc 0) = 31"
  "month_start l (Suc (Suc 0)) = 59 + (if l then 1 else 0)"
  by (simp_all add: month_start_def)

lemma month_cases:
  assumes "m \<le> (11::nat)"
  obtains "m = 0" | "m = 1" | "m = 2" | "m = 3" | "m = 4" | "m = 5" | "m = 6" | "m = 7"
    | "m = 8" | "m = 9" | "m = 10" | "m = 11"
  using assms by atomize_elim arith

lemma month_of_day_in_year:
  assumes m: "m \<le> 11"
    and lo: "month_start (leap_year (YearFromTime t)) m \<le> DayWithinYear t"
    and hi: "DayWithinYear t < month_start (leap_year (YearFromTime t)) (m + 1)"
  shows "MonthFromTime t = m"
  using m
proof (cases m rule: month_cases)
  case 1 with lo hi show ?thesis by (cases "leap_year (YearFromTime t)") (simp_all add: MonthFromTime_def Let_def month_start_values) next
  case 2 with lo hi show ?thesis by (cases "leap_year (YearFromTime t)") (simp_all add: MonthFromTime_def Let_def month_start_values) next
  case 3 with lo hi show ?thesis by (cases "leap_year (YearFromTime t)") (simp_all add: MonthFromTime_def Let_def month_start_values) next
  case 4 with lo hi show ?thesis by (cases "leap_year (YearFromTime t)") (simp_all add: MonthFromTime_def Let_def month_start_values) next
  case 5 with lo hi show ?thesis by (cases "leap_year (YearFromTime t)") (simp_all add: MonthFromTime_def Let_def month_start_values) next
  case 6 with lo hi show ?thesis by (cases "leap_year (YearFromTime t)") (simp_all add: MonthFromTime_def Let_def month_start_values) next
  case 7 with lo hi show ?thesis by (cases "leap_year (YearFromTime t)") (simp_all add: MonthFromTime_def Let_def month_start_values) next
  case 8 with lo hi show ?thesis by (cases "leap_year (YearFromTime t)") (simp_all add: MonthFromTime_def Let_def month_start_values) next
  case 9 with lo hi show ?thesis by (cases "leap_year (YearFromTime t)") (simp_all add: MonthFromTime_def Let_def month_start_values) next
  case 10 with lo hi show ?thesis by (cases "leap_year (YearFromTime t)") (simp_all add: MonthFromTime_def Let_def month_start_values) next
  case 11 with lo hi show ?thesis by (cases "leap_year (YearFromTime t)") (simp_all add: MonthFromTime_def Let_def month_start_values) next
  case 12 with lo hi show ?thesis by (cases "leap_year (YearFromTime t)") (simp_all add: MonthFromTime_def Let_def month_start_values)
qed

lemma month_start_bounds:
  assumes "m \<le> 11"
  shows "0 \<le> month_start l m" and "month_start l (m + 1) \<le> month_start l 12"
    and "month_start l m < month_start l (m + 1)"
  using assms
  by (cases m rule: month_cases; cases l; simp add: month_start_values)+

lemma day_within_year_range:
  "0 \<le> DayWithinYear t \<and> DayWithinYear t < month_start (leap_year (YearFromTime t)) 12"
proof -
  from year_of_day_bracket [of "Day t"]
  have "DayFromYear (YearFromTime t) \<le> Day t" "Day t < DayFromYear (YearFromTime t + 1)"
    by (simp_all add: YearFromTime_def)
  then show ?thesis
    by (cases "leap_year (YearFromTime t)")
       (simp_all add: DayWithinYear_def DayFromYear_step month_start_values)
qed

lemma month_from_time_range:
  "MonthFromTime t \<le> 11 \<and>
   month_start (leap_year (YearFromTime t)) (MonthFromTime t) \<le> DayWithinYear t \<and>
   DayWithinYear t < month_start (leap_year (YearFromTime t)) (MonthFromTime t + 1)"
proof -
  define l where "l = leap_year (YearFromTime t)"
  define d where "d = DayWithinYear t"
  have d: "0 \<le> d" "d < month_start l 12"
    using day_within_year_range [of t] by (simp_all add: d_def l_def)
  have m: "MonthFromTime t =
      (if d < month_start l 1 then 0 else if d < month_start l 2 then 1
       else if d < month_start l 3 then 2 else if d < month_start l 4 then 3
       else if d < month_start l 5 then 4 else if d < month_start l 6 then 5
       else if d < month_start l 7 then 6 else if d < month_start l 8 then 7
       else if d < month_start l 9 then 8 else if d < month_start l 10 then 9
       else if d < month_start l 11 then 10 else 11)"
    by (simp only: MonthFromTime_def Let_def l_def d_def)
  show ?thesis
    unfolding l_def [symmetric] d_def [symmetric] m
    using d by (cases l) (simp_all add: month_start_values)
qed

lemma date_from_time_valid:
  "1 \<le> DateFromTime t \<and> DateFromTime t \<le> DaysInMonth (YearFromTime t) (MonthFromTime t)"
  using month_from_time_range [of t]
  by (simp add: DateFromTime_def DaysInMonth_def)

lemma MakeDay_fields: "MakeDay (YearFromTime t) (MonthFromTime t) (DateFromTime t) = Day t"
  by (simp add: MakeDay_def DateFromTime_def DayWithinYear_def)

lemma fields_of_day:
  assumes m: "m \<le> 11" and lo: "1 \<le> dt" and hi: "dt \<le> DaysInMonth y m"
    and day: "Day t = MakeDay y m dt"
  shows "YearFromTime t = y" and "MonthFromTime t = m" and "DateFromTime t = dt"
proof -
  define l where "l = leap_year y"
  have hi': "dt \<le> month_start l (m + 1) - month_start l m"
    using hi by (simp add: DaysInMonth_def l_def)
  have day': "Day t = DayFromYear y + month_start l m + dt - 1"
    using day by (simp add: MakeDay_def l_def)
  from month_start_bounds [OF m, of l]
  have b: "0 \<le> month_start l m" "month_start l (m + 1) \<le> month_start l 12" by simp_all
  have year_len: "DayFromYear (y + 1) = DayFromYear y + month_start l 12"
    by (simp add: DayFromYear_step month_start_values l_def)
  have "DayFromYear y \<le> Day t" using day' b(1) lo by simp
  moreover have "Day t < DayFromYear (y + 1)" using day' b(2) hi' year_len by simp
  ultimately show y: "YearFromTime t = y"
    by (simp add: YearFromTime_def year_of_day_unique)
  have dwy: "DayWithinYear t = month_start l m + dt - 1"
    by (simp add: DayWithinYear_def y day')
  show mth: "MonthFromTime t = m"
  proof (rule month_of_day_in_year [OF m])
    show "month_start (leap_year (YearFromTime t)) m \<le> DayWithinYear t"
      using lo by (simp add: y dwy l_def)
    show "DayWithinYear t < month_start (leap_year (YearFromTime t)) (m + 1)"
      using hi' by (simp add: y dwy l_def)
  qed
  show "DateFromTime t = dt"
    by (simp add: DateFromTime_def y mth dwy l_def)
qed

lemma digit_char_inverse: "is_digit c \<Longrightarrow> digit_char (digit_value c) = c"
  by (simp add: is_digit_def digit_char_def digit_value_def Let_def)

lemma digit_char_digit: "n < 10 \<Longrightarrow> is_digit (digit_char n) \<and> digit_value (digit_char n) = n"
  by (simp add: is_digit_def digit_char_def digit_value_def Let_def)

lemma decimal_step:
  "b < 10 \<Longrightarrow> decimal (10 * a + b) = (if a = 0 then [digit_char b] else decimal a @ [digit_char b])"
  by (subst decimal.simps) auto

lemma decimal_digits: "list_all is_digit (decimal n) \<and> decimal n \<noteq> []"
proof (induction n rule: decimal.induct)
  case (1 n)
  show ?case
  proof (cases "n < 10")
    case True
    then show ?thesis by (subst decimal.simps, subst decimal.simps) (simp add: digit_char_digit)
  next
    case False
    with 1 have "list_all is_digit (decimal (n div 10))" by simp
    moreover have "is_digit (digit_char (n mod 10))" by (simp add: digit_char_digit)
    ultimately show ?thesis using False
      by (subst decimal.simps, subst decimal.simps) simp
  qed
qed

lemma digits_value_decimal:
  "foldl (\<lambda>a c. 10 * a + digit_value c) 0 (replicate k CHR ''0'' @ decimal n) = n"
proof (induction n rule: decimal.induct)
  case (1 n)
  have zeros: "foldl (\<lambda>a c. 10 * a + digit_value c) 0 (replicate k CHR ''0'') = 0"
    by (induction k) (simp_all add: digit_value_def)
  show ?case
  proof (cases "n < 10")
    case True
    then have "decimal n = [digit_char n]" by (subst decimal.simps) simp
    with True zeros show ?thesis by (simp add: digit_char_digit)
  next
    case False
    then have d: "decimal n = decimal (n div 10) @ [digit_char (n mod 10)]"
      by (subst decimal.simps) simp
    from 1 False have "foldl (\<lambda>a c. 10 * a + digit_value c) 0 (replicate k CHR ''0'' @ decimal (n div 10)) = n div 10"
      by simp
    then have "foldl (\<lambda>a c. 10 * a + digit_value c) 0 ((replicate k CHR ''0'' @ decimal (n div 10)) @ [digit_char (n mod 10)])
        = 10 * (n div 10) + n mod 10"
      by (simp only: foldl_append foldl.simps) (simp add: digit_char_digit)
    then show ?thesis by (simp add: d)
  qed
qed

lemma is_digit_zero: "is_digit CHR ''0''"
  by (simp add: is_digit_def)

lemma parse_pad: "0 \<le> n \<Longrightarrow> parse_digits (pad w n) = Some (nat n)"
proof -
  define k where "k = w - length (decimal (nat n))"
  have p: "pad w n = replicate k CHR ''0'' @ decimal (nat n)"
    by (simp add: pad_def Let_def k_def)
  have "list_all is_digit (replicate k CHR ''0'')"
    by (simp add: list_all_iff is_digit_zero)
  with decimal_digits [of "nat n"] have "list_all is_digit (pad w n)" "pad w n \<noteq> []"
    by (simp_all add: p)
  then show ?thesis
    using digits_value_decimal [of k "nat n"] by (simp add: parse_digits_def p)
qed

lemma decimal_length_le: "n < 10 ^ w \<Longrightarrow> 0 < w \<Longrightarrow> length (decimal n) \<le> w"
proof (induction n arbitrary: w rule: decimal.induct)
  case (1 n)
  show ?case
  proof (cases "n < 10")
    case True
    then have "decimal n = [digit_char n]" by (subst decimal.simps) simp
    with 1(3) show ?thesis by simp
  next
    case False
    then have d: "decimal n = decimal (n div 10) @ [digit_char (n mod 10)]"
      by (subst decimal.simps) simp
    from False 1(2) have w: "1 < w"
      by (cases "w = 1") (use 1(3) in auto)
    then obtain v where v: "w = Suc v" "0 < v" by (cases w) auto
    with 1(2) have "n div 10 < 10 ^ v" by (simp add: less_mult_imp_div_less mult.commute)
    from 1(1) [OF False this v(2)] show ?thesis by (simp add: d v(1))
  qed
qed

lemma decimal_length_ge: "10 ^ k \<le> n \<Longrightarrow> k < length (decimal n)"
proof (induction n arbitrary: k rule: decimal.induct)
  case (1 n)
  show ?case
  proof (cases "n < 10")
    case True
    have "k = 0"
    proof (cases k)
      case (Suc j)
      have "(1::nat) \<le> 10 ^ j" by simp
      then have "(10::nat) \<le> 10 ^ k" by (simp add: Suc)
      with 1(2) True show ?thesis by simp
    qed simp
    then show ?thesis using decimal_digits [of n] by (cases "decimal n") auto
  next
    case False
    then have d: "decimal n = decimal (n div 10) @ [digit_char (n mod 10)]"
      by (subst decimal.simps) simp
    show ?thesis
    proof (cases k)
      case 0
      then show ?thesis by (simp add: d)
    next
      case (Suc j)
      with 1(2) have "10 ^ j \<le> n div 10" by (simp add: less_eq_div_iff_mult_less_eq mult.commute)
      from 1(1) [OF False this] show ?thesis by (simp add: d Suc)
    qed
  qed
qed

lemma pad_length: "0 \<le> n \<Longrightarrow> n < 10 ^ w \<Longrightarrow> 0 < w \<Longrightarrow> length (pad w n) = w"
proof -
  assume n: "0 \<le> n" "n < 10 ^ w" and w: "0 < w"
  from n have "nat n < 10 ^ w" by (simp add: nat_less_iff)
  from decimal_length_le [OF this w] show ?thesis by (simp add: pad_def Let_def)
qed

lemma digit_value_less: "is_digit c \<Longrightarrow> digit_value c < 10"
  by (auto simp: is_digit_def digit_value_def Let_def)

lemma char_of_48: "char_of (48::nat) = CHR ''0''"
  by code_simp

lemma decimal_small: "b < 10 \<Longrightarrow> decimal b = [digit_char b]"
  by (subst decimal.simps) simp

lemma decimal_zero: "decimal 0 = ''0''"
  by (simp add: decimal_small digit_char_def char_of_48)

lemma digits_decimal:
  assumes "list_all is_digit u" and "u \<noteq> []"
  shows "length (decimal (foldl (\<lambda>a c. 10 * a + digit_value c) 0 u)) \<le> length u \<and>
         replicate (length u - length (decimal (foldl (\<lambda>a c. 10 * a + digit_value c) 0 u))) CHR ''0''
           @ decimal (foldl (\<lambda>a c. 10 * a + digit_value c) 0 u) = u"
  using assms
proof (induction u rule: rev_induct)
  case Nil
  then show ?case by simp
next
  case (snoc c v)
  let ?f = "\<lambda>a c. 10 * a + digit_value c"
  from snoc.prems have c: "is_digit c" and v: "list_all is_digit v" by simp_all
  define a where "a = foldl ?f 0 v"
  define b where "b = digit_value c"
  have b: "b < 10" using c by (simp add: b_def digit_value_less)
  have cb: "digit_char b = c" using c by (simp add: b_def digit_char_inverse)
  have val: "foldl ?f 0 (v @ [c]) = 10 * a + b" by (simp add: a_def b_def)
  have "length (decimal (10 * a + b)) \<le> length (v @ [c]) \<and>
        replicate (length (v @ [c]) - length (decimal (10 * a + b))) CHR ''0''
          @ decimal (10 * a + b) = v @ [c]"
  proof (cases "v = []")
    case True
    then have "a = 0" by (simp add: a_def)
    then have "decimal (10 * a + b) = [c]" using b cb by (simp add: decimal_small)
    with True show ?thesis by simp
  next
    case False
    from snoc.IH [OF v False] have ih: "length (decimal a) \<le> length v"
        "replicate (length v - length (decimal a)) CHR ''0'' @ decimal a = v"
      by (simp_all add: a_def)
    show ?thesis
    proof (cases "a = 0")
      case True
      with ih(2) have vz: "replicate (length v - 1) CHR ''0'' @ [CHR ''0''] = v"
        by (simp add: decimal_zero)
      have "replicate (length v - 1) CHR ''0'' @ [CHR ''0''] = replicate (Suc (length v - 1)) CHR ''0''"
        by (simp only: replicate_append_same replicate_Suc)
      also have "Suc (length v - 1) = length v" using False by (cases v) simp_all
      finally have zeros: "replicate (length v) CHR ''0'' = v" using vz by simp
      have "decimal (10 * a + b) = [c]" using True b cb by (simp add: decimal_small)
      with zeros show ?thesis by simp
    next
      case nz: False
      have "decimal (10 * a + b) = decimal a @ [c]" using nz b cb by (simp add: decimal_step)
      with ih show ?thesis by simp
    qed
  qed
  then show ?case by (simp only: val)
qed

lemma pad_parse:
  assumes "parse_digits u = Some n"
  shows "pad (length u) (int n) = u"
proof -
  from assms have u: "list_all is_digit u" "u \<noteq> []"
    and n: "n = foldl (\<lambda>a c. 10 * a + digit_value c) 0 u"
    by (auto simp: parse_digits_def split: if_splits)
  from digits_decimal [OF u] show ?thesis
    by (simp add: pad_def Let_def n)
qed

lemma decimal_parse:
  assumes "parse_digits u = Some n" and "10 ^ (length u - 1) \<le> n"
  shows "decimal n = u"
proof -
  from assms(1) have u: "list_all is_digit u" "u \<noteq> []"
    and n: "n = foldl (\<lambda>a c. 10 * a + digit_value c) 0 u"
    by (auto simp: parse_digits_def split: if_splits)
  from digits_decimal [OF u] have le: "length (decimal n) \<le> length u"
    and eq: "replicate (length u - length (decimal n)) CHR ''0'' @ decimal n = u"
    by (simp_all add: n)
  from decimal_length_ge [OF assms(2)] have "length u - 1 < length (decimal n)" .
  with le u(2) have "length (decimal n) = length u" by (cases u) auto
  with eq show ?thesis by simp
qed

lemma time_decomposition:
  "MakeDate (Day t) (MakeTime (HourFromTime t) (MinFromTime t) (SecFromTime t) (msFromTime t)) = t"
proof -
  define u where "u = t div 1000"
  define v where "v = u div 60"
  define w where "w = v div 60"
  have v: "t div 60000 = v"
    using zdiv_zmult2_eq [of 60 t 1000] by (simp add: v_def u_def)
  have w: "t div 3600000 = w"
    using zdiv_zmult2_eq [of 60 t 60000] by (simp add: w_def v)
  have d: "t div 86400000 = w div 24"
    using zdiv_zmult2_eq [of 24 t 3600000] by (simp add: w)
  have t: "t = 1000 * u + t mod 1000" by (simp add: u_def)
  have u: "u = 60 * v + u mod 60" by (simp add: v_def)
  have v': "v = 60 * w + v mod 60" by (simp add: w_def)
  have w': "w = 24 * (w div 24) + w mod 24" by simp
  have "MakeDate (Day t) (MakeTime (HourFromTime t) (MinFromTime t) (SecFromTime t) (msFromTime t))
      = (w div 24) * 86400000 + (w mod 24) * 3600000 + (v mod 60) * 60000 + (u mod 60) * 1000 + t mod 1000"
    by (simp add: MakeDate_def MakeTime_def Day_def HourFromTime_def MinFromTime_def
        SecFromTime_def msFromTime_def msPerDay_def msPerHour_def msPerMinute_def
        msPerSecond_def v w d u_def [symmetric])
  also have "\<dots> = t"
    using t u v' w' by linarith
  finally show ?thesis .
qed

lemma mod_range: "0 < k \<Longrightarrow> 0 \<le> (x::int) mod k \<and> x mod k \<le> k - 1"
  by simp

lemma time_field_ranges:
  "0 \<le> HourFromTime t \<and> HourFromTime t \<le> 23 \<and> 0 \<le> MinFromTime t \<and> MinFromTime t \<le> 59 \<and>
   0 \<le> SecFromTime t \<and> SecFromTime t \<le> 59 \<and> 0 \<le> msFromTime t \<and> msFromTime t \<le> 999"
  using mod_range [of 24 "t div msPerHour"] mod_range [of 60 "t div msPerMinute"]
    mod_range [of 60 "t div msPerSecond"] mod_range [of 1000 t]
  by (simp add: HourFromTime_def MinFromTime_def SecFromTime_def msFromTime_def msPerSecond_def)

lemma local_time_fields:
  assumes "0 \<le> h" "h \<le> 23" "0 \<le> mi" "mi \<le> 59"
  shows "Day (MakeDate day (MakeTime h mi 0 0)) = day"
    and "HourFromTime (MakeDate day (MakeTime h mi 0 0)) = h"
    and "MinFromTime (MakeDate day (MakeTime h mi 0 0)) = mi"
proof -
  define t where "t = MakeDate day (MakeTime h mi 0 0)"
  have t: "t = day * 86400000 + h * 3600000 + mi * 60000"
    by (simp add: t_def MakeDate_def MakeTime_def msPerDay_def msPerHour_def msPerMinute_def)
  have d: "t = 86400000 * day + (h * 3600000 + mi * 60000)" using t by simp
  have "t div 86400000 = day"
    by (rule int_div_pos_eq [OF d]) (use assms in simp_all)
  then show "Day (MakeDate day (MakeTime h mi 0 0)) = day"
    by (simp add: Day_def msPerDay_def t_def)
  have hq: "t = 3600000 * (24 * day + h) + mi * 60000" using t by simp
  have hd: "t div 3600000 = 24 * day + h"
    by (rule int_div_pos_eq [OF hq]) (use assms in simp_all)
  have "(24 * day + h) mod 24 = h"
    by (rule int_mod_pos_eq [of _ _ day]) (use assms in simp_all)
  then show "HourFromTime (MakeDate day (MakeTime h mi 0 0)) = h"
    by (simp add: HourFromTime_def msPerHour_def t_def [symmetric] hd)
  have mq: "t = 60000 * (1440 * day + 60 * h + mi) + 0" using t by simp
  have md: "t div 60000 = 1440 * day + 60 * h + mi"
    by (rule int_div_pos_eq [OF mq]) simp_all
  have "(1440 * day + 60 * h + mi) mod 60 = mi"
    by (rule int_mod_pos_eq [of _ _ "24 * day + h"]) (use assms in simp_all)
  then show "MinFromTime (MakeDate day (MakeTime h mi 0 0)) = mi"
    by (simp add: MinFromTime_def msPerMinute_def t_def [symmetric] md)
qed

lemma digit_not_sign: "is_digit c \<Longrightarrow> c \<noteq> CHR ''+'' \<and> c \<noteq> CHR ''-''"
  by (auto simp: is_digit_def)

lemma length2: "length u = 2 \<Longrightarrow> \<exists>a b. u = [a, b]"
  by (cases u; cases "tl u") auto

lemma length3: "length u = 3 \<Longrightarrow> \<exists>a b c. u = [a, b, c]"
  by (cases u; cases "tl u"; cases "tl (tl u)") auto

lemma pad2: "0 \<le> n \<Longrightarrow> n \<le> 99 \<Longrightarrow> \<exists>a b. pad 2 n = [a, b] \<and> parse_digits [a, b] = Some (nat n)"
proof -
  assume n: "0 \<le> n" "n \<le> 99"
  then have "length (pad 2 n) = 2" by (intro pad_length) simp_all
  from length2 [OF this] obtain a b where "pad 2 n = [a, b]" by blast
  with parse_pad [OF n(1), of 2] show ?thesis by auto
qed

lemma pad3: "0 \<le> n \<Longrightarrow> n \<le> 999 \<Longrightarrow> \<exists>a b c. pad 3 n = [a, b, c] \<and> parse_digits [a, b, c] = Some (nat n)"
proof -
  assume n: "0 \<le> n" "n \<le> 999"
  then have "length (pad 3 n) = 3" by (intro pad_length) simp_all
  from length3 [OF this] obtain a b c where "pad 3 n = [a, b, c]" by blast
  with parse_pad [OF n(1), of 3] show ?thesis by auto
qed

lemma parse_iso_fields_written:
  "parse_iso_fields (YearFromTime t)
     (''-'' @ pad 2 (int (MonthFromTime t) + 1) @ ''-'' @ pad 2 (DateFromTime t) @ ''T'' @
      pad 2 (HourFromTime t) @ '':'' @ pad 2 (MinFromTime t) @ '':'' @ pad 2 (SecFromTime t) @
      ''.'' @ pad 3 (msFromTime t) @ ''Z'') = Some t"
proof -
  from month_from_time_range [of t] have M: "MonthFromTime t \<le> 11" by simp
  from date_from_time_valid [of t] have D: "1 \<le> DateFromTime t"
      "DateFromTime t \<le> DaysInMonth (YearFromTime t) (MonthFromTime t)" by simp_all
  have D31: "DateFromTime t \<le> 99"
  proof -
    have "DaysInMonth (YearFromTime t) (MonthFromTime t) \<le> 31"
      using M by (cases "MonthFromTime t" rule: month_cases; cases "leap_year (YearFromTime t)")
        (simp_all add: DaysInMonth_def month_start_values)
    with D(2) show ?thesis by simp
  qed
  note R = time_field_ranges [of t]
  from pad2 [of "int (MonthFromTime t) + 1"] M obtain m1 m2 where
    m: "pad 2 (int (MonthFromTime t) + 1) = [m1, m2]"
       "parse_digits [m1, m2] = Some (nat (int (MonthFromTime t) + 1))" by auto
  from pad2 [of "DateFromTime t"] D(1) D31 obtain d1 d2 where
    d: "pad 2 (DateFromTime t) = [d1, d2]" "parse_digits [d1, d2] = Some (nat (DateFromTime t))"
    by auto
  from pad2 [of "HourFromTime t"] R obtain h1 h2 where
    h: "pad 2 (HourFromTime t) = [h1, h2]" "parse_digits [h1, h2] = Some (nat (HourFromTime t))"
    by auto
  from pad2 [of "MinFromTime t"] R obtain i1 i2 where
    i: "pad 2 (MinFromTime t) = [i1, i2]" "parse_digits [i1, i2] = Some (nat (MinFromTime t))"
    by auto
  from pad2 [of "SecFromTime t"] R obtain s1 s2 where
    s: "pad 2 (SecFromTime t) = [s1, s2]" "parse_digits [s1, s2] = Some (nat (SecFromTime t))"
    by auto
  from pad3 [of "msFromTime t"] R obtain f1 f2 f3 where
    f: "pad 3 (msFromTime t) = [f1, f2, f3]" "parse_digits [f1, f2, f3] = Some (nat (msFromTime t))"
    by auto
  have month: "nat (int (MonthFromTime t) + 1) - Suc 0 = MonthFromTime t"
    "Suc 0 \<le> nat (int (MonthFromTime t) + 1)" "nat (int (MonthFromTime t) + 1) \<le> 12"
    using M by simp_all
  have nats: "Suc 0 \<le> nat (DateFromTime t)" "nat (HourFromTime t) \<le> 23"
    "nat (MinFromTime t) \<le> 59" "nat (SecFromTime t) \<le> 59"
    using D(1) R by linarith+
  have "parse_iso_fields (YearFromTime t)
     (''-'' @ pad 2 (int (MonthFromTime t) + 1) @ ''-'' @ pad 2 (DateFromTime t) @ ''T'' @
      pad 2 (HourFromTime t) @ '':'' @ pad 2 (MinFromTime t) @ '':'' @ pad 2 (SecFromTime t) @
      ''.'' @ pad 3 (msFromTime t) @ ''Z'')
    = Some (MakeDate (MakeDay (YearFromTime t) (MonthFromTime t) (DateFromTime t))
              (MakeTime (HourFromTime t) (MinFromTime t) (SecFromTime t) (msFromTime t)))"
    using D R
    by (simp add: parse_iso_fields_def m d h i s f month nats)
  then show ?thesis
    by (simp only: MakeDay_fields time_decomposition)
qed

lemma length4: "length u = 4 \<Longrightarrow> \<exists>a b c d. u = [a, b, c, d]"
  by (cases u; cases "tl u"; cases "tl (tl u)"; cases "tl (tl (tl u))") auto

lemma length6: "length u = 6 \<Longrightarrow> \<exists>a b c d e f. u = [a, b, c, d, e, f]"
proof -
  assume "length u = 6"
  then have "length (take 2 u) = 2" "length (drop 2 u) = 4" by simp_all
  from length2 [OF this(1)] length4 [OF this(2)] obtain a b c d e f where
    "take 2 u = [a, b]" "drop 2 u = [c, d, e, f]" by blast
  then have "take 2 u @ drop 2 u = [a, b, c, d, e, f]" by simp
  then show ?thesis by (simp only: append_take_drop_id) blast
qed

lemma parse_digits_first: "parse_digits (c # u) = Some n \<Longrightarrow> is_digit c"
  by (simp add: parse_digits_def split: if_splits)

text \<open>Reading back the ISO string of a time value gives the time value.\<close>

lemma iso_round_trip:
  assumes "- 999999 \<le> YearFromTime t" and "YearFromTime t \<le> 999999"
  shows "iso_time_value (toISOString t) = Some t"
proof -
  define rest where "rest =
      ''-'' @ pad 2 (int (MonthFromTime t) + 1) @ ''-'' @ pad 2 (DateFromTime t) @ ''T'' @
      pad 2 (HourFromTime t) @ '':'' @ pad 2 (MinFromTime t) @ '':'' @ pad 2 (SecFromTime t) @
      ''.'' @ pad 3 (msFromTime t) @ ''Z''"
  have rest: "parse_iso_fields (YearFromTime t) rest = Some t"
    unfolding rest_def by (rule parse_iso_fields_written)
  have iso: "toISOString t = iso_year (YearFromTime t) @ rest"
    by (simp add: toISOString_def rest_def)
  consider (plain) "0 \<le> YearFromTime t" "YearFromTime t \<le> 9999"
    | (before) "YearFromTime t < 0" | (after) "9999 < YearFromTime t"
    by linarith
  then show ?thesis
  proof cases
    case plain
    then have "length (pad 4 (YearFromTime t)) = 4" by (intro pad_length) simp_all
    from length4 [OF this] obtain a b c d where y: "pad 4 (YearFromTime t) = [a, b, c, d]"
      by blast
    from parse_pad [OF plain(1), of 4] have p: "parse_digits [a, b, c, d] = Some (nat (YearFromTime t))"
      by (simp add: y)
    from digit_not_sign [OF parse_digits_first [OF p]] have "a \<noteq> CHR ''+''" "a \<noteq> CHR ''-''"
      by simp_all
    then show ?thesis
      using plain rest by (simp add: iso iso_year_def y iso_time_value_def p)
  next
    case before
    with assms(1) have "length (pad 6 (- YearFromTime t)) = 6" by (intro pad_length) simp_all
    from length6 [OF this] obtain a b c d e f where
      y: "pad 6 (- YearFromTime t) = [a, b, c, d, e, f]" by blast
    from before have "0 \<le> - YearFromTime t" by simp
    from parse_pad [OF this, of 6] have p: "parse_digits [a, b, c, d, e, f] = Some (nat (- YearFromTime t))"
      by (simp add: y)
    have "- int (nat (- YearFromTime t)) = YearFromTime t" using before by simp
    then show ?thesis
      using before rest by (simp add: iso iso_year_def y iso_time_value_def p)
  next
    case after
    with assms(2) have "length (pad 6 (YearFromTime t)) = 6" by (intro pad_length) simp_all
    from length6 [OF this] obtain a b c d e f where
      y: "pad 6 (YearFromTime t) = [a, b, c, d, e, f]" by blast
    from after have "0 \<le> YearFromTime t" by simp
    from parse_pad [OF this, of 6] have p: "parse_digits [a, b, c, d, e, f] = Some (nat (YearFromTime t))"
      by (simp add: y)
    have "int (nat (YearFromTime t)) = YearFromTime t" using after by simp
    then show ?thesis
      using after rest by (simp add: iso iso_year_def y iso_time_value_def p)
  qed
qed

lemma length16:
  assumes "length u = 16"
  shows "\<exists>c0 c1 c2 c3 c4 c5 c6 c7 c8 c9 c10 c11 c12 c13 c14 c15.
           u = [c0, c1, c2, c3, c4, c5, c6, c7, c8, c9, c10, c11, c12, c13, c14, c15]"
proof -
  from assms have "length (take 4 u) = 4" "length (take 6 (drop 4 u)) = 6"
    "length (drop 10 u) = 6" by simp_all
  from length4 [OF this(1)] length6 [OF this(2)] length6 [OF this(3)]
  obtain c0 c1 c2 c3 c4 c5 c6 c7 c8 c9 c10 c11 c12 c13 c14 c15 where
    parts: "take 4 u = [c0, c1, c2, c3]" "take 6 (drop 4 u) = [c4, c5, c6, c7, c8, c9]"
    "drop 10 u = [c10, c11, c12, c13, c14, c15]" by blast
  have a: "take 4 u @ drop 4 u = u" by (rule append_take_drop_id)
  have "take 6 (drop 4 u) @ drop 6 (drop 4 u) = drop 4 u" by (rule append_take_drop_id)
  then have b: "take 6 (drop 4 u) @ drop 10 u = drop 4 u" by simp
  have "u = take 4 u @ drop 4 u" by (rule a [symmetric])
  also have "\<dots> = take 4 u @ (take 6 (drop 4 u) @ drop 10 u)" by (simp only: b)
  also have "\<dots> = [c0, c1, c2, c3, c4, c5, c6, c7, c8, c9, c10, c11, c12, c13, c14, c15]"
    by (simp only: parts append_Cons append_Nil)
  finally show ?thesis by blast
qed

lemma parse_digits_bound:
  assumes "parse_digits u = Some n"
  shows "n < 10 ^ length u"
proof (rule ccontr)
  assume "\<not> n < 10 ^ length u"
  then have "10 ^ length u \<le> n" by simp
  from decimal_length_ge [OF this] have "length u < length (decimal n)" .
  moreover from assms have "list_all is_digit u" "u \<noteq> []"
    and n: "n = foldl (\<lambda>a c. 10 * a + digit_value c) 0 u"
    by (auto simp: parse_digits_def split: if_splits)
  from digits_decimal [OF this(1,2)] have "length (decimal n) \<le> length u" by (simp add: n)
  ultimately show False by simp
qed

lemma parse_local_shape:
  assumes "parse_local s = Some (y, m, d, h, mi)"
  shows "\<exists>c0 c1 c2 c3 c5 c6 c8 c9 c11 c12 c14 c15 yn mo dn hn mn.
           s = [c0, c1, c2, c3, CHR ''-'', c5, c6, CHR ''-'', c8, c9, CHR ''T'', c11, c12, CHR '':'', c14, c15] \<and>
           parse_digits [c0, c1, c2, c3] = Some yn \<and> y = int yn \<and>
           parse_digits [c5, c6] = Some mo \<and> 1 \<le> mo \<and> mo \<le> 12 \<and> m = mo - 1 \<and>
           parse_digits [c8, c9] = Some dn \<and> d = int dn \<and> 1 \<le> dn \<and> int dn \<le> DaysInMonth y m \<and>
           parse_digits [c11, c12] = Some hn \<and> h = int hn \<and> hn \<le> 23 \<and>
           parse_digits [c14, c15] = Some mn \<and> mi = int mn \<and> mn \<le> 59"
proof -
  from assms have "length s = 16"
    by (simp add: parse_local_def split: if_splits)
  from length16 [OF this] obtain c0 c1 c2 c3 c4 c5 c6 c7 c8 c9 c10 c11 c12 c13 c14 c15 where
    s: "s = [c0, c1, c2, c3, c4, c5, c6, c7, c8, c9, c10, c11, c12, c13, c14, c15]" by blast
  from assms show ?thesis
    unfolding s parse_local_def
    by (simp split: if_splits option.splits) 
qed

lemma Day_shift:
  assumes "- msPerDay \<le> tz" and "tz \<le> msPerDay"
  shows "Day lt - 1 \<le> Day (lt - tz)" and "Day (lt - tz) \<le> Day lt + 1"
proof -
  have down: "(lt - msPerDay) div msPerDay = lt div msPerDay - 1"
    using div_add_self2 [of msPerDay "lt - msPerDay"] by (simp add: msPerDay_def)
  have up: "(lt + msPerDay) div msPerDay = lt div msPerDay + 1"
    using div_add_self2 [of msPerDay lt] by (simp add: msPerDay_def)
  have "(lt - msPerDay) div msPerDay \<le> (lt - tz) div msPerDay"
    by (rule zdiv_mono1) (use assms in \<open>simp_all add: msPerDay_def\<close>)
  then show "Day lt - 1 \<le> Day (lt - tz)" by (simp add: Day_def down)
  have "(lt - tz) div msPerDay \<le> (lt + msPerDay) div msPerDay"
    by (rule zdiv_mono1) (use assms in \<open>simp_all add: msPerDay_def\<close>)
  then show "Day (lt - tz) \<le> Day lt + 1" by (simp add: Day_def up)
qed

lemma year_of_day_bounds:
  assumes "DayFromYear a \<le> d" and "d < DayFromYear b"
  shows "a \<le> year_of_day d" and "year_of_day d < b"
proof -
  from year_of_day_bracket [of d] have Y: "DayFromYear (year_of_day d) \<le> d"
    "d < DayFromYear (year_of_day d + 1)" by simp_all
  show "a \<le> year_of_day d"
  proof (rule ccontr)
    assume "\<not> a \<le> year_of_day d"
    then have "DayFromYear (year_of_day d + 1) \<le> DayFromYear a" by (intro DayFromYear_mono) simp
    with Y(2) assms(1) show False by simp
  qed
  show "year_of_day d < b"
  proof (rule ccontr)
    assume "\<not> year_of_day d < b"
    then have "DayFromYear b \<le> DayFromYear (year_of_day d)" by (intro DayFromYear_mono) simp
    with Y(1) assms(2) show False by simp
  qed
qed

lemma pad_parse2: "parse_digits [a, b] = Some n \<Longrightarrow> pad 2 (int n) = [a, b]"
  using pad_parse [of "[a, b]" n] by (simp add: numeral_2_eq_2)

text \<open>
  From the year 1000 on, and with an offset of at most a day, the local string is
  recovered: converting a datetime-local value to the ISO string and back under the same
  offset gives the value itself.
\<close>

lemma local_round_trip:
  assumes parsed: "parse_local s = Some (y, m, d, h, mi)"
    and year: "1000 \<le> y"
    and tz: "- msPerDay \<le> tz" "tz \<le> msPerDay"
  shows "\<exists>written. localDatetimeToIso tz s = Inr written \<and> isoToLocalDatetime tz written = Some s"
proof -
  from parse_local_shape [OF parsed] obtain c0 c1 c2 c3 c5 c6 c8 c9 c11 c12 c14 c15 yn mo dn hn mn
    where s: "s = [c0, c1, c2, c3, CHR ''-'', c5, c6, CHR ''-'', c8, c9, CHR ''T'', c11, c12, CHR '':'', c14, c15]"
      and py: "parse_digits [c0, c1, c2, c3] = Some yn" and y: "y = int yn"
      and pm: "parse_digits [c5, c6] = Some mo" and mo: "1 \<le> mo" "mo \<le> 12" and m: "m = mo - 1"
      and pd: "parse_digits [c8, c9] = Some dn" and d: "d = int dn" "1 \<le> dn" "int dn \<le> DaysInMonth y m"
      and ph: "parse_digits [c11, c12] = Some hn" and h: "h = int hn" "hn \<le> 23"
      and pi: "parse_digits [c14, c15] = Some mn" and mi: "mi = int mn" "mn \<le> 59"
    by blast
  define lt where "lt = MakeDate (MakeDay y m d) (MakeTime h mi 0 0)"
  define t where "t = lt - tz"
  have m11: "m \<le> 11" using mo m by simp
  have hr: "0 \<le> h" "h \<le> 23" "0 \<le> mi" "mi \<le> 59" using h mi by simp_all
  have day: "Day lt = MakeDay y m d"
    unfolding lt_def by (rule local_time_fields(1) [OF hr])
  have fields: "YearFromTime lt = y" "MonthFromTime lt = m" "DateFromTime lt = d"
    using fields_of_day [OF m11 _ _ day] d by simp_all
  have hour: "HourFromTime lt = h" and minute: "MinFromTime lt = mi"
    unfolding lt_def by (rule local_time_fields(2) [OF hr], rule local_time_fields(3) [OF hr])
  have y_hi: "y \<le> 9999"
    using parse_digits_bound [OF py] y by simp
  have written: "localDatetimeToIso tz s = Inr (toISOString t)"
    using parsed by (simp add: localDatetimeToIso_def local_time_value_def t_def lt_def)
  have utc_year: "- 999999 \<le> YearFromTime t" "YearFromTime t \<le> 999999"
  proof -
    from year_of_day_bracket [of "Day lt"] fields(1)
    have b: "DayFromYear y \<le> Day lt" "Day lt < DayFromYear (y + 1)"
      by (simp_all add: YearFromTime_def)
    have "DayFromYear 1000 \<le> DayFromYear y" by (rule DayFromYear_mono [OF year])
    moreover have "DayFromYear (y + 1) \<le> DayFromYear 10000"
      by (rule DayFromYear_mono) (use y_hi in simp)
    moreover have "DayFromYear 999 < DayFromYear 1000" "DayFromYear 10000 < DayFromYear 10001"
      using DayFromYear_less [of 999] DayFromYear_less [of 10000] by simp_all
    moreover note Day_shift [OF tz, of lt] b
    ultimately have "DayFromYear 999 \<le> Day t" "Day t < DayFromYear 10001"
      by (simp_all add: t_def)
    from year_of_day_bounds [OF this] show "- 999999 \<le> YearFromTime t" "YearFromTime t \<le> 999999"
      by (simp_all add: YearFromTime_def)
  qed
  have reread: "iso_time_value (toISOString t) = Some t"
    by (rule iso_round_trip [OF utc_year])
  have shifted: "t + tz = lt" by (simp add: t_def)
  have yy: "decimal_int y = [c0, c1, c2, c3]"
  proof -
    have "10 ^ (length [c0, c1, c2, c3] - 1) \<le> yn" using year y by simp
    from decimal_parse [OF py this] show ?thesis using y by (simp add: decimal_int_def)
  qed
  have mm: "pad 2 (int m + 1) = [c5, c6]"
  proof -
    have "int m + 1 = int mo" using mo m by simp
    with pad_parse2 [OF pm] show ?thesis by simp
  qed
  have dd: "pad 2 d = [c8, c9]" using pad_parse2 [OF pd] d(1) by simp
  have hh: "pad 2 h = [c11, c12]" using pad_parse2 [OF ph] h(1) by simp
  have ii: "pad 2 mi = [c14, c15]" using pad_parse2 [OF pi] mi(1) by simp
  have "isoToLocalDatetime tz (toISOString t) = Some s"
    by (simp add: isoToLocalDatetime_def reread Let_def shifted fields hour minute yy mm dd hh ii s)
  with written show ?thesis by blast
qed

text \<open>
  C9. A planned time entered as a minute-precision local string, converted to the ISO
  instant (\<open>localDatetimeToIso\<close>) and back under the same offset (\<open>isoToLocalDatetime\<close>),
  should be recovered exactly. For a year below 1000 it is not: \<open>isoToLocalDatetime\<close>
  pads month, day, hour and minute but writes the year as it is, so that the value
  \<^verbatim>\<open>0999-12-21T09:30\<close>, entered one hour east of UTC, comes back as
  \<^verbatim>\<open>999-12-21T09:30\<close>, which is another string and not a datetime-local value.
\<close>

theorem round_trip_year_999:
  "localDatetimeToIso 3600000 ''0999-12-21T09:30'' = Inr ''0999-12-21T08:30:00.000Z'' \<and>
   isoToLocalDatetime 3600000 ''0999-12-21T08:30:00.000Z'' = Some ''999-12-21T09:30'' \<and>
   ''999-12-21T09:30'' \<noteq> ''0999-12-21T09:30''"
  by code_simp

lemma round_trip_year_2025:
  "localDatetimeToIso 3600000 ''2025-12-21T09:30'' = Inr ''2025-12-21T08:30:00.000Z'' \<and>
   isoToLocalDatetime 3600000 ''2025-12-21T08:30:00.000Z'' = Some ''2025-12-21T09:30''"
  by code_simp

end
